theory Spec2Isabelle
  imports Complex_Main "HOL-Library.Word"
begin

section \<open>Infrastructure-based calibration of a camera rig: the model\<close>

text \<open>
  The development follows \<^verbatim>\<open>src/infrastr_calib/InfrastructureCalibration.cc\<close>, one HOL
  function per member function. Conventions:
  \<^item> \<^verbatim>\<open>double\<close> and \<^verbatim>\<open>float\<close> values are real numbers; the IEEE special values are
    written out only where they decide a branch (the division of the ratio test);
  \<^item> \<^verbatim>\<open>uint64_t\<close> time stamps are 64-bit words;
  \<^item> a \<^verbatim>\<open>shared_ptr\<close> is an address (a natural number) into a field-wise heap, a null
    pointer is \<open>None\<close>;
  \<^item> \<^verbatim>\<open>std::vector::at\<close> out of range, a null dereference and a read of a value
    never written are values of the type \<open>error\<close>;
  \<^item> what the file calls in other libraries (feature extraction and PnP, the GPU
    matcher, Eigen's pose algebra, the camera model, the Ceres solver) is a function
    argument of the model.
\<close>

subsection \<open>Values\<close>

type_synonym vec2 = "real \<times> real"
type_synonym vec3 = "real \<times> real \<times> real"
type_synonym quat = "real \<times> real \<times> real \<times> real"

datatype error = OutOfRange | NullPointer | UninitialisedRead

text \<open>\<^verbatim>\<open>v.at(i)\<close> for a \<^verbatim>\<open>size_t\<close> index.\<close>

definition vat :: "'a list \<Rightarrow> nat \<Rightarrow> error + 'a" where
  "vat v i = (if i < length v then Inr (v ! i) else Inl OutOfRange)"

text \<open>\<^verbatim>\<open>v.at(i)\<close> for an \<^verbatim>\<open>int\<close> index: a negative one converts to a \<^verbatim>\<open>size_t\<close> beyond
  every size.\<close>

definition vat_int :: "'a list \<Rightarrow> int \<Rightarrow> error + 'a" where
  "vat_int v i = (if 0 \<le> i \<and> nat i < length v then Inr (v ! nat i) else Inl OutOfRange)"

text \<open>\<^verbatim>\<open>std::numeric_limits<double>::max()\<close>, \<^verbatim>\<open>std::numeric_limits<double>::min()\<close> (the
  smallest positive normal number) and \<^verbatim>\<open>std::numeric_limits<float>::max()\<close>.\<close>

definition DBL_MAX :: real where
  "DBL_MAX = (2 - 1 / 2 ^ 52) * 2 ^ 1023"

definition DBL_MIN :: real where
  "DBL_MIN = 1 / 2 ^ 1022"

definition FLT_MAX :: real where
  "FLT_MAX = (2 - 1 / 2 ^ 23) * 2 ^ 127"

text \<open>The constants the constructor sets (lines 34 to 40), with the values their literals
  have: \<^verbatim>\<open>0.7f\<close> is the \<^verbatim>\<open>float\<close> \<open>11744051 / 2 ^ 24\<close> and \<^verbatim>\<open>0.3\<close> is the \<^verbatim>\<open>double\<close>
  \<open>5404319552844595 / 2 ^ 54\<close>.\<close>

definition k_maxDistanceRatio :: real where
  "k_maxDistanceRatio = 11744051 / 2 ^ 24"

definition k_minCorrespondences2D2D :: int where
  "k_minCorrespondences2D2D = 20"

definition k_minCorrespondences2D3D :: int where
  "k_minCorrespondences2D3D = 25"

definition k_minKeyFrameDistance :: real where
  "k_minKeyFrameDistance = 5404319552844595 / 2 ^ 54"

definition hypot :: "real \<Rightarrow> real \<Rightarrow> real" where
  "hypot a b = sqrt (a * a + b * b)"

subsection \<open>The calibration state\<close>

text \<open>
  A pose is a time stamp, a unit quaternion \<open>(w, x, y, z)\<close> and a translation. The class
  \<^verbatim>\<open>Pose\<close> and its conversions from and to \<^verbatim>\<open>Eigen::Matrix4d\<close> are not in this file:
  a rigid transform is carried as a \<open>Pose\<close> whatever its C++ type.
\<close>

record Pose =
  timeStamp :: "64 word"
  rotation :: quat
  translation :: vec3

text \<open>\<^verbatim>\<open>Eigen::Matrix4d::Identity()\<close>, that is \<^verbatim>\<open>Eigen::Quaterniond::Identity()\<close> with
  \<^verbatim>\<open>Eigen::Vector3d::Zero()\<close>.\<close>

definition Identity :: Pose where
  "Identity = \<lparr>timeStamp = 0, rotation = (1, 0, 0, 0), translation = (0, 0, 0)\<rparr>"

definition isIdentity :: "Pose \<Rightarrow> bool" where
  "isIdentity p = (rotation p = (1, 0, 0, 0) \<and> translation p = (0, 0, 0))"

record Odometry =
  odoTimeStamp :: "64 word"
  position :: vec3
  attitude :: vec3

text \<open>
  A frame: its camera id, its pose (\<^verbatim>\<open>camera()\<close>, null until the frame is localised),
  the addresses of its \<^verbatim>\<open>Point2DFeature\<close> objects and its odometry. The frames of a set
  share one \<^verbatim>\<open>Odometry\<close> object once \<^verbatim>\<open>run\<close> has assigned it; the model keeps its value in
  each frame.
\<close>

record Frame =
  cameraId :: nat
  camera :: "Pose option"
  features2D :: "nat list"
  odometry :: "Odometry option"

definition Frame_new :: Frame where
  "Frame_new = \<lparr>cameraId = 0, camera = None, features2D = [], odometry = None\<rparr>"

record FrameSet =
  frames :: "Frame list"
  timestamp :: "64 word"

text \<open>
  The members of \<^verbatim>\<open>InfrastructureCalibration\<close> and the heap its pointers reach.
  \<open>m_cameras\<close> is the number of cameras (the camera objects are used through the camera
  model only). \<open>m_feature3DMap\<close> maps the address of a \<^verbatim>\<open>Point3DFeature\<close> of the reference
  map to the address of the \<^verbatim>\<open>Point3DFeature\<close> made for it. The heap holds, field by
  field, the \<^verbatim>\<open>Point2DFeature\<close> objects (key point, \<^verbatim>\<open>feature3D()\<close>) and the
  \<^verbatim>\<open>Point3DFeature\<close> objects (\<^verbatim>\<open>point()\<close>, \<^verbatim>\<open>features2D()\<close>); \<open>next_f2d\<close> and \<open>next_f3d\<close>
  are the addresses the next \<^verbatim>\<open>new\<close> returns.
\<close>

record calibration =
  m_cameras :: nat
  m_framesets :: "FrameSet list"
  m_feature3DMap :: "nat \<rightharpoonup> nat"
  m_x_last :: real
  m_y_last :: real
  m_distance :: real
  m_extrinsics :: "Pose list"
  f2d_keypoint :: "nat \<Rightarrow> vec2"
  f2d_feature3D :: "nat \<Rightarrow> nat option"
  f3d_point :: "nat \<Rightarrow> vec3"
  f3d_features2D :: "nat \<Rightarrow> nat list"
  next_f2d :: nat
  next_f3d :: nat

text \<open>
  A state as the constructor and \<^verbatim>\<open>reset\<close> leave it for \<open>n\<close> cameras, with the heap of
  a loaded reference map: \<open>pts\<close> are the points of its \<^verbatim>\<open>Point3DFeature\<close> objects, at the
  addresses \<open>0..<length pts\<close>. (The extrinsics, whose class is not in this file, start
  as identity poses here.)
\<close>

definition initial :: "nat \<Rightarrow> vec3 list \<Rightarrow> calibration" where
  "initial n pts =
     \<lparr>m_cameras = n, m_framesets = [], m_feature3DMap = Map.empty,
      m_x_last = 0, m_y_last = 0, m_distance = 0,
      m_extrinsics = replicate n Identity,
      f2d_keypoint = (\<lambda>p. (0, 0)), f2d_feature3D = (\<lambda>p. None),
      f3d_point = (\<lambda>a. if a < length pts then pts ! a else (0, 0, 0)),
      f3d_features2D = (\<lambda>a. []),
      next_f2d = 0, next_f3d = length pts\<rparr>"

subsection \<open>\<^verbatim>\<open>addOdometry\<close>\<close>

text \<open>Lines 229 to 240. The yaw and the time stamp are not used.\<close>

definition addOdometry :: "real \<Rightarrow> real \<Rightarrow> real \<Rightarrow> 64 word \<Rightarrow> calibration \<Rightarrow> calibration" where
  "addOdometry x y yaw ts st =
     (let st1 = (if m_x_last st \<noteq> 0 \<or> m_y_last st \<noteq> 0
                 then st\<lparr>m_distance := m_distance st + hypot (x - m_x_last st) (y - m_y_last st)\<rparr>
                 else st)
      in st1\<lparr>m_x_last := x, m_y_last := y\<rparr>)"

text \<open>A sequence of calls, one per sample \<open>(x, y, yaw, timestamp)\<close>.\<close>

fun addOdometries :: "(real \<times> real \<times> real \<times> 64 word) list \<Rightarrow> calibration \<Rightarrow> calibration" where
  "addOdometries [] st = st"
| "addOdometries ((x, y, yaw, ts) # samples) st = addOdometries samples (addOdometry x y yaw ts st)"

text \<open>
  The claim's path length: the sum of the Euclidean distances between consecutive
  \<open>(x, y)\<close> samples. \<open>gatedLength\<close> leaves out the pairs whose earlier sample is \<open>(0, 0)\<close>.
\<close>

fun pathLength :: "(real \<times> real) list \<Rightarrow> real" where
  "pathLength (p # q # ps) = hypot (fst q - fst p) (snd q - snd p) + pathLength (q # ps)"
| "pathLength ps = 0"

fun gatedLength :: "(real \<times> real) list \<Rightarrow> real" where
  "gatedLength (p # q # ps) =
     (if p \<noteq> (0, 0) then hypot (fst q - fst p) (snd q - snd p) else 0) + gatedLength (q # ps)"
| "gatedLength ps = 0"

definition xy :: "real \<times> real \<times> real \<times> 64 word \<Rightarrow> real \<times> real" where
  "xy s = (fst s, fst (snd s))"

subsection \<open>\<^verbatim>\<open>estimateCameraPose\<close>\<close>

text \<open>
  What lines 623 to 751 compute for one image with library calls (SURF key points and
  descriptors, the vocabulary tree, \<^verbatim>\<open>matchFeatures\<close> on each candidate frame,
  \<^verbatim>\<open>solvePnPRansac\<close>): the key points, the inlier count of the best candidate, its
  inlier correspondences (the index of the query feature in the frame, the address of
  the \<^verbatim>\<open>Point3DFeature\<close> of the reference map), and the pose found. It is an argument
  \<open>localize image cameraId preprocess\<close> of the model.
\<close>

record Localization =
  keypoints :: "vec2 list"
  bestInlierCount :: int
  bestCorr2D3D :: "(nat \<times> nat) list"
  best_rotation :: quat
  best_translation :: vec3

text \<open>
  One pass of the loop of lines 777 to 800, which runs under \<^verbatim>\<open>m_feature3DMapMutex\<close>: find
  \<open>p3D\<close> in \<open>m_feature3DMap\<close>; when absent make a new \<^verbatim>\<open>Point3DFeature\<close> with the point of
  \<open>p3D\<close> and insert it; append \<open>p2D\<close> to its features and set \<open>p2D->feature3D()\<close>.
\<close>

definition storeCorrespondence :: "nat \<times> nat \<Rightarrow> calibration \<Rightarrow> calibration" where
  "storeCorrespondence c st =
     (let p2D = fst c; p3D = snd c in
      case m_feature3DMap st p3D of
        None \<Rightarrow>
          (let feature3D = next_f3d st in
           st\<lparr>next_f3d := Suc feature3D,
              f3d_point := (f3d_point st)(feature3D := f3d_point st p3D),
              m_feature3DMap := (m_feature3DMap st)(p3D \<mapsto> feature3D),
              f3d_features2D := (f3d_features2D st)(feature3D := [p2D]),
              f2d_feature3D := (f2d_feature3D st)(p2D := Some feature3D)\<rparr>)
      | Some feature3D \<Rightarrow>
          st\<lparr>f3d_features2D := (f3d_features2D st)(feature3D := f3d_features2D st feature3D @ [p2D]),
             f2d_feature3D := (f2d_feature3D st)(p2D := Some feature3D)\<rparr>)"

text \<open>
  A sequence of such passes. The passes of the threads of one \<^verbatim>\<open>addFrameSet\<close> call, and
  of later calls, interleave in some order: each is atomic under the mutex.
\<close>

fun storeInliers :: "(nat \<times> nat) list \<Rightarrow> calibration \<Rightarrow> calibration" where
  "storeInliers [] st = st"
| "storeInliers (c # cs) st = storeInliers cs (storeCorrespondence c st)"

text \<open>
  Lines 652 to 662: a new \<^verbatim>\<open>Point2DFeature\<close> for each key point, with no
  \<^verbatim>\<open>feature3D()\<close> yet. The objects take the addresses from \<open>next_f2d\<close> on, so the feature
  of index \<open>i\<close> is at \<open>next_f2d + i\<close>.
\<close>

definition newFeatures :: "vec2 list \<Rightarrow> calibration \<Rightarrow> calibration" where
  "newFeatures kps st =
     (let base = next_f2d st; n = length kps in
      st\<lparr>next_f2d := base + n,
         f2d_keypoint := (\<lambda>p. if base \<le> p \<and> p < base + n then kps ! (p - base)
                              else f2d_keypoint st p),
         f2d_feature3D := (\<lambda>p. if base \<le> p \<and> p < base + n then None
                               else f2d_feature3D st p)\<rparr>)"

text \<open>
  \<^verbatim>\<open>estimateCameraPose(image, timestamp, frame, preprocess)\<close>, lines 617 to 832; the
  result is the frame as the call leaves it, and the state.
\<close>

definition estimateCameraPose ::
  "('img \<Rightarrow> nat \<Rightarrow> bool \<Rightarrow> Localization) \<Rightarrow> 'img \<Rightarrow> 64 word \<Rightarrow> Frame \<Rightarrow> bool \<Rightarrow> calibration
     \<Rightarrow> Frame \<times> calibration"
where
  "estimateCameraPose localize img ts frame preprocess st =
     (let loc = localize img (cameraId frame) preprocess;
          base = next_f2d st;
          st1 = newFeatures (keypoints loc) st;
          frame1 = frame\<lparr>features2D := features2D frame @ [base ..< base + length (keypoints loc)]\<rparr>
      in if bestInlierCount loc < k_minCorrespondences2D3D then (frame1, st1)
         else
           (let pose = \<lparr>timeStamp = ts, rotation = best_rotation loc,
                        translation = best_translation loc\<rparr>;
                frame2 = frame1\<lparr>camera := Some pose\<rparr>;
                st2 = storeInliers (map (\<lambda>(i, p3D). (base + i, p3D)) (bestCorr2D3D loc)) st1;
                frame3 = frame2\<lparr>features2D := filter (\<lambda>p. f2d_feature3D st2 p \<noteq> None)
                                                   (features2D frame2)\<rparr>
            in (frame3, st2)))"

text \<open>
  What the calls of \<^verbatim>\<open>estimateCameraPose\<close>, in one thread or several, do to the features:
  a trace of feature creations and of passes of the store loop, in the order in which
  they happen. \<open>storesAllocated\<close> says that each pass stores a feature that exists;
  \<open>lastStore evs p\<close> is the reference point of the last pass that stored feature \<open>p\<close>.
\<close>

datatype event = NewFeatures "vec2 list" | Store nat nat

fun step :: "event \<Rightarrow> calibration \<Rightarrow> calibration" where
  "step (NewFeatures kps) st = newFeatures kps st"
| "step (Store p2D p3D) st = storeCorrespondence (p2D, p3D) st"

fun exec :: "event list \<Rightarrow> calibration \<Rightarrow> calibration" where
  "exec [] st = st"
| "exec (e # es) st = exec es (step e st)"

fun storesAllocated :: "event list \<Rightarrow> calibration \<Rightarrow> bool" where
  "storesAllocated [] st = True"
| "storesAllocated (NewFeatures kps # es) st = storesAllocated es (newFeatures kps st)"
| "storesAllocated (Store p2D p3D # es) st =
     (p2D < next_f2d st \<and> storesAllocated es (storeCorrespondence (p2D, p3D) st))"

fun lastStore :: "event list \<Rightarrow> nat \<Rightarrow> nat option" where
  "lastStore [] p = None"
| "lastStore (NewFeatures kps # es) p = lastStore es p"
| "lastStore (Store p2D p3D # es) p =
     (case lastStore es p of
        Some r \<Rightarrow> Some r
      | None \<Rightarrow> if p2D = p then Some p3D else None)"

subsection \<open>\<^verbatim>\<open>addFrameSet\<close>\<close>

text \<open>
  Lines 102 to 119: one new frame and one thread per camera, joined before the caller
  goes on. A thread touches its own frame and, under the mutex, the Feature3D map; the
  model runs the cameras in the order of their index, which is one of the schedules.
\<close>

fun localizeFrames ::
  "('img \<Rightarrow> nat \<Rightarrow> bool \<Rightarrow> Localization) \<Rightarrow> 'img list \<Rightarrow> nat \<Rightarrow> 64 word \<Rightarrow> bool \<Rightarrow> calibration
     \<Rightarrow> Frame list \<times> calibration"
where
  "localizeFrames localize [] i ts preprocess st = ([], st)"
| "localizeFrames localize (img # images) i ts preprocess st =
     (let (frame, st1) = estimateCameraPose localize img ts (Frame_new\<lparr>cameraId := i\<rparr>) preprocess st;
          (frames, st2) = localizeFrames localize images (Suc i) ts preprocess st1
      in (frame # frames, st2))"

text \<open>\<^verbatim>\<open>v.at(i) = x\<close>.\<close>

definition vset :: "'a list \<Rightarrow> nat \<Rightarrow> 'a \<Rightarrow> error + 'a list" where
  "vset v i x = (if i < length v then Inr (v[i := x]) else Inl OutOfRange)"

text \<open>Lines 153 to 158 and 160 to 165: the frames of a set, filed by camera id.\<close>

fun byCamera :: "Frame list \<Rightarrow> Frame option list \<Rightarrow> error + Frame option list" where
  "byCamera [] v = Inr v"
| "byCamera (frame # fs) v =
     (case vset v (cameraId frame) (Some frame) of
        Inl e \<Rightarrow> Inl e
      | Inr v' \<Rightarrow> byCamera fs v')"

definition norm3 :: "vec3 \<Rightarrow> real" where
  "norm3 v = (case v of (x, y, z) \<Rightarrow> sqrt (x * x + y * y + z * z))"

definition minus3 :: "vec3 \<Rightarrow> vec3 \<Rightarrow> vec3" where
  "minus3 a b = (case a of (ax, ay, az) \<Rightarrow> case b of (bx, by, bz) \<Rightarrow> (ax - bx, ay - by, az - bz))"

text \<open>
  Lines 175 and 176: the distance between the camera centres of two poses, where
  \<open>centre p\<close> is \<^verbatim>\<open>p.pose().inverse().block<3,1>(0,3)\<close>.
\<close>

definition displacement :: "(Pose \<Rightarrow> vec3) \<Rightarrow> Pose \<Rightarrow> Pose \<Rightarrow> real" where
  "displacement centre cur prev = norm3 (minus3 (centre cur) (centre prev))"

text \<open>The loop of lines 168 to 182 over the cameras, \<open>keyFrameDist\<close> being the minimum so
  far.\<close>

fun keyFrameDistance ::
  "(Pose \<Rightarrow> vec3) \<Rightarrow> Frame option list \<Rightarrow> Frame option list \<Rightarrow> real \<Rightarrow> error + real"
where
  "keyFrameDistance centre (Some prev # framePrev) (Some cur # frameCurr) keyFrameDist =
     (case camera cur of
        None \<Rightarrow> Inl NullPointer
      | Some poseCurr \<Rightarrow>
          (case camera prev of
             None \<Rightarrow> Inl NullPointer
           | Some posePrev \<Rightarrow>
               (let d = displacement centre poseCurr posePrev
                in keyFrameDistance centre framePrev frameCurr
                     (if d < keyFrameDist then d else keyFrameDist))))"
| "keyFrameDistance centre (_ # framePrev) (_ # frameCurr) keyFrameDist =
     keyFrameDistance centre framePrev frameCurr keyFrameDist"
| "keyFrameDistance centre _ _ keyFrameDist = Inr keyFrameDist"

text \<open>Lines 121 to 203: the candidate set of the localised frames, and the keyframe
  gate.\<close>

definition keyframeGate ::
  "(Pose \<Rightarrow> vec3) \<Rightarrow> Frame list \<Rightarrow> 64 word \<Rightarrow> calibration \<Rightarrow> error + calibration"
where
  "keyframeGate centre fs ts st =
     (let frameset = \<lparr>frames = filter (\<lambda>f. camera f \<noteq> None) fs, timestamp = ts\<rparr> in
      if length (frames frameset) < 2 then Inr st
      else if m_framesets st = [] then Inr (st\<lparr>m_framesets := m_framesets st @ [frameset]\<rparr>)
      else
        (case byCamera (frames (last (m_framesets st))) (replicate (m_cameras st) None) of
           Inl e \<Rightarrow> Inl e
         | Inr framePrev \<Rightarrow>
             (case byCamera (frames frameset) (replicate (m_cameras st) None) of
                Inl e \<Rightarrow> Inl e
              | Inr frameCurr \<Rightarrow>
                  (case keyFrameDistance centre framePrev frameCurr DBL_MAX of
                     Inl e \<Rightarrow> Inl e
                   | Inr keyFrameDist \<Rightarrow>
                       if keyFrameDist \<noteq> DBL_MAX \<and> keyFrameDist > k_minKeyFrameDistance
                       then Inr (st\<lparr>m_framesets := m_framesets st @ [frameset]\<rparr>)
                       else Inr st))))"

text \<open>\<^verbatim>\<open>addFrameSet(images, timestamp, preprocess)\<close>, lines 91 to 227.\<close>

definition addFrameSet ::
  "('img \<Rightarrow> nat \<Rightarrow> bool \<Rightarrow> Localization) \<Rightarrow> (Pose \<Rightarrow> vec3) \<Rightarrow> 'img list \<Rightarrow> 64 word \<Rightarrow> bool
     \<Rightarrow> calibration \<Rightarrow> error + calibration"
where
  "addFrameSet localize centre images ts preprocess st =
     (if length images \<noteq> m_cameras st then Inr st
      else
        (let (fs, st1) = localizeFrames localize images 0 ts preprocess st
         in keyframeGate centre fs ts st1))"

text \<open>
  A sequence of calls of \<^verbatim>\<open>estimateCameraPose\<close>, each on a new frame of the given camera
  (as lines 102 to 117 make them), for images of any cameras at any time stamps, in the
  order of the list.
\<close>

fun estimatePoses ::
  "('img \<Rightarrow> nat \<Rightarrow> bool \<Rightarrow> Localization) \<Rightarrow> ('img \<times> nat \<times> 64 word) list \<Rightarrow> bool \<Rightarrow> calibration
     \<Rightarrow> Frame list \<times> calibration"
where
  "estimatePoses localize [] preprocess st = ([], st)"
| "estimatePoses localize ((img, cam, ts) # calls) preprocess st =
     (let (frame, st1) = estimateCameraPose localize img ts (Frame_new\<lparr>cameraId := cam\<rparr>) preprocess st;
          (frames, st2) = estimatePoses localize calls preprocess st1
      in (frame # frames, st2))"

text \<open>
  The vocabulary of the claim about the Feature3D map. \<open>matched loc i r\<close>: the call whose
  library results are \<open>loc\<close> stores its inliers, feature \<open>i\<close> of the frame exists, and the
  (last) inlier correspondence of feature \<open>i\<close> is with the reference point \<open>r\<close>.
  \<open>mapAllocated\<close>: the objects \<open>m_feature3DMap\<close> holds are allocated. \<open>grows st st'\<close> is what
  the store loop keeps from \<open>st\<close> to \<open>st'\<close>: the entries of the map and the points and
  attached features of the objects allocated in \<open>st\<close> stay, an entry that is new holds a
  new object with the point of its reference point, and there is one new object for
  each new entry.
\<close>

definition matched :: "Localization \<Rightarrow> nat \<Rightarrow> nat \<Rightarrow> bool" where
  "matched loc i r =
     (k_minCorrespondences2D3D \<le> bestInlierCount loc \<and> i < length (keypoints loc) \<and>
      map_of (rev (bestCorr2D3D loc)) i = Some r)"

definition mapAllocated :: "calibration \<Rightarrow> bool" where
  "mapAllocated st = (\<forall>r a. m_feature3DMap st r = Some a \<longrightarrow> a < next_f3d st)"

definition grows :: "calibration \<Rightarrow> calibration \<Rightarrow> bool" where
  "grows st st' =
     (mapAllocated st' \<and> next_f3d st \<le> next_f3d st' \<and>
      (\<forall>r a. m_feature3DMap st r = Some a \<longrightarrow> m_feature3DMap st' r = Some a) \<and>
      (\<forall>a < next_f3d st. f3d_point st' a = f3d_point st a \<and>
           set (f3d_features2D st a) \<subseteq> set (f3d_features2D st' a)) \<and>
      (\<forall>r a. m_feature3DMap st' r = Some a \<longrightarrow>
           m_feature3DMap st r = Some a \<or>
           (next_f3d st \<le> a \<and> (r < next_f3d st \<longrightarrow> f3d_point st' a = f3d_point st r))) \<and>
      finite (dom (m_feature3DMap st') - dom (m_feature3DMap st)) \<and>
      next_f3d st' = next_f3d st + card (dom (m_feature3DMap st') - dom (m_feature3DMap st)))"

subsection \<open>\<^verbatim>\<open>loadFrameSets\<close>\<close>

text \<open>
  \<^verbatim>\<open>loadFrameSets(filename)\<close>, lines 514 to 585. The argument \<open>graph\<close> is the
  \<^verbatim>\<open>SparseGraph\<close> read from the file: for each camera its frame segments, of which the
  merge reads segment 0 (\<^verbatim>\<open>frameSegments(i).at(0)\<close>) and, of each frame there, the time
  stamp of its pose (\<^verbatim>\<open>camera()->timeStamp()\<close>).
\<close>

fun mapE :: "('a \<Rightarrow> error + 'b) \<Rightarrow> 'a list \<Rightarrow> error + 'b list" where
  "mapE f [] = Inr []"
| "mapE f (x # xs) =
     (case f x of
        Inl e \<Rightarrow> Inl e
      | Inr y \<Rightarrow> (case mapE f xs of Inl e \<Rightarrow> Inl e | Inr ys \<Rightarrow> Inr (y # ys)))"

definition stampedFrame :: "Frame \<Rightarrow> error + (64 word \<times> Frame)" where
  "stampedFrame f = (case camera f of None \<Rightarrow> Inl NullPointer | Some p \<Rightarrow> Inr (timeStamp p, f))"

definition stampedSegments :: "Frame list list list \<Rightarrow> error + (64 word \<times> Frame) list list" where
  "stampedSegments graph =
     mapE (\<lambda>segments. case vat segments 0 of Inl e \<Rightarrow> Inl e | Inr seg \<Rightarrow> mapE stampedFrame seg) graph"

text \<open>Lines 532 to 545: the smallest time stamp among the fronts \<open>seg[mark[i]]\<close> of the
  cameras not yet exhausted, starting from the largest \<^verbatim>\<open>uint64_t\<close>.\<close>

fun nextTimestamp :: "(64 word \<times> Frame) list list \<Rightarrow> nat list \<Rightarrow> 64 word \<Rightarrow> 64 word" where
  "nextTimestamp (seg # segs) (k # mark) ts =
     nextTimestamp segs mark
       (if k \<ge> length seg then ts
        else if fst (seg ! k) < ts then fst (seg ! k)
        else ts)"
| "nextTimestamp _ _ ts = ts"

text \<open>Lines 550 to 562: the fronts with that time stamp form the set, and their marks
  advance.\<close>

fun takeFronts :: "(64 word \<times> Frame) list list \<Rightarrow> nat list \<Rightarrow> 64 word \<Rightarrow> Frame list \<times> nat list" where
  "takeFronts (seg # segs) (k # mark) ts =
     (let (fs, mark') = takeFronts segs mark ts in
      if k \<ge> length seg then (fs, k # mark')
      else if ts = fst (seg ! k) then (snd (seg ! k) # fs, Suc k # mark')
      else (fs, k # mark'))"
| "takeFronts _ _ ts = ([], [])"

text \<open>Lines 566 to 574.\<close>

fun allFinished :: "(64 word \<times> Frame) list list \<Rightarrow> nat list \<Rightarrow> bool" where
  "allFinished (seg # segs) (k # mark) = (\<not> k < length seg \<and> allFinished segs mark)"
| "allFinished _ _ = True"

text \<open>The loop ends: the number of frames still to merge decreases in every pass that
  is not the last.\<close>

fun remaining :: "(64 word \<times> Frame) list list \<Rightarrow> nat list \<Rightarrow> nat" where
  "remaining (seg # segs) (k # mark) = (length seg - k) + remaining segs mark"
| "remaining _ _ = 0"

lemma nextTimestamp_le: "nextTimestamp segs mark ts \<le> ts"
proof (induction segs mark ts rule: nextTimestamp.induct)
  case (1 seg segs k mark ts)
  let ?ts' = "if k \<ge> length seg then ts else if fst (seg ! k) < ts then fst (seg ! k) else ts"
  have "nextTimestamp segs mark ?ts' \<le> ?ts'" by (rule "1.IH")
  moreover have "?ts' \<le> ts" by (simp add: order.strict_implies_order)
  ultimately have "nextTimestamp segs mark ?ts' \<le> ts" by (rule order_trans)
  then show ?case by simp
qed simp_all

text \<open>The front with the result's time stamp.\<close>

fun attained :: "(64 word \<times> Frame) list list \<Rightarrow> nat list \<Rightarrow> 64 word \<Rightarrow> bool" where
  "attained (seg # segs) (k # mark) ts = ((k < length seg \<and> fst (seg ! k) = ts) \<or> attained segs mark ts)"
| "attained _ _ ts = False"

lemma nextTimestamp_attained:
  "nextTimestamp segs mark ts = ts \<or> attained segs mark (nextTimestamp segs mark ts)"
proof (induction segs mark ts rule: nextTimestamp.induct)
  case (1 seg segs k mark ts)
  let ?ts' = "if k \<ge> length seg then ts else if fst (seg ! k) < ts then fst (seg ! k) else ts"
  from 1 have "nextTimestamp segs mark ?ts' = ?ts' \<or> attained segs mark (nextTimestamp segs mark ?ts')"
    by simp
  then show ?case
    by (auto split: if_splits)
qed simp_all

lemma nextTimestamp_fixed_attained:
  "\<not> allFinished segs mark \<Longrightarrow> nextTimestamp segs mark ts = ts \<Longrightarrow> ts = - 1 \<Longrightarrow>
   attained segs mark ts"
proof (induction segs mark ts rule: nextTimestamp.induct)
  case (1 seg segs k mark ts)
  show ?case
  proof (cases "k < length seg")
    case True
    show ?thesis
    proof (cases "fst (seg ! k) < ts")
      case lt: True
      have "nextTimestamp segs mark (fst (seg ! k)) \<le> fst (seg ! k)"
        by (rule nextTimestamp_le)
      with "1.prems"(2) True lt show ?thesis by auto
    next
      case False
      have "fst (seg ! k) \<le> - 1" by simp
      with False \<open>ts = - 1\<close> have "fst (seg ! k) = ts"
        by (metis order_le_less)
      with True show ?thesis by simp
    qed
  next
    case False
    with "1.prems" have "\<not> allFinished segs mark" "nextTimestamp segs mark ts = ts"
      by simp_all
    with "1.IH" False "1.prems"(3) have "attained segs mark ts" by simp
    then show ?thesis by simp
  qed
qed simp_all

lemma nextTimestamp_max_attained:
  "\<not> allFinished segs mark \<Longrightarrow> attained segs mark (nextTimestamp segs mark (- 1))"
  using nextTimestamp_attained [of segs mark "- 1"] nextTimestamp_fixed_attained [of segs mark "- 1"]
  by auto

lemma takeFronts_remaining_le:
  "remaining segs (snd (takeFronts segs mark ts)) \<le> remaining segs mark"
  by (induction segs mark ts rule: takeFronts.induct) (auto simp: Let_def split_def)

lemma takeFronts_remaining_less:
  "attained segs mark ts \<Longrightarrow> remaining segs (snd (takeFronts segs mark ts)) < remaining segs mark"
proof (induction segs mark ts rule: takeFronts.induct)
  case (1 seg segs k mark ts)
  have le: "remaining segs (snd (takeFronts segs mark ts)) \<le> remaining segs mark"
    by (rule takeFronts_remaining_le)
  show ?case
  proof (cases "k < length seg \<and> fst (seg ! k) = ts")
    case True
    with le show ?thesis by (auto simp: Let_def split_def)
  next
    case False
    with 1 have "remaining segs (snd (takeFronts segs mark ts)) < remaining segs mark"
      by auto
    then show ?thesis by (auto simp: Let_def split_def)
  qed
qed simp_all

lemma takeFronts_unfinished:
  "\<not> allFinished segs (snd (takeFronts segs mark ts)) \<Longrightarrow> \<not> allFinished segs mark"
  by (induction segs mark ts rule: takeFronts.induct) (auto simp: Let_def split_def split: if_splits)

text \<open>The loop of lines 529 to 575; \<open>framesets\<close> is \<open>m_framesets\<close>.\<close>

function mergeLoop :: "(64 word \<times> Frame) list list \<Rightarrow> nat list \<Rightarrow> FrameSet list \<Rightarrow> FrameSet list" where
  "mergeLoop segs mark framesets =
     (let ts = nextTimestamp segs mark (- 1);
          (fs, mark') = takeFronts segs mark ts;
          framesets' = framesets @ [\<lparr>frames = fs, timestamp = ts\<rparr>]
      in if allFinished segs mark' then framesets' else mergeLoop segs mark' framesets')"
  by pat_completeness auto
termination
proof (relation "measure (\<lambda>(segs, mark, framesets). remaining segs mark)")
  show "wf (measure (\<lambda>(segs, mark, framesets). remaining segs mark))" by simp
next
  fix segs :: "(64 word \<times> Frame) list list" and mark framesets ts x fs mark' framesets'
  assume ts: "ts = nextTimestamp segs mark (- 1)" and x: "x = takeFronts segs mark ts"
    and fm: "(fs, mark') = x" and nf: "\<not> allFinished segs mark'"
  from x fm have m: "mark' = snd (takeFronts segs mark ts)"
    by (metis snd_conv)
  from nf m have "\<not> allFinished segs mark"
    using takeFronts_unfinished by blast
  then have "attained segs mark ts"
    unfolding ts by (rule nextTimestamp_max_attained)
  then have "remaining segs mark' < remaining segs mark"
    unfolding m by (rule takeFronts_remaining_less)
  then show "((segs, mark', framesets'), segs, mark, framesets)
      \<in> measure (\<lambda>(segs, mark, framesets). remaining segs mark)"
    by simp
qed

declare mergeLoop.simps [simp del]

text \<open>\<open>m_framesets\<close> is cleared, then filled by the loop.\<close>

definition loadFrameSets :: "Frame list list list \<Rightarrow> calibration \<Rightarrow> error + calibration" where
  "loadFrameSets graph st =
     (case stampedSegments graph of
        Inl e \<Rightarrow> Inl e
      | Inr segs \<Rightarrow> Inr (st\<lparr>m_framesets := mergeLoop segs (replicate (length segs) 0) []\<rparr>))"

text \<open>Frames and a graph for the evaluations: camera 0 has one frame at time 1, camera
  1 one frame at time 2.\<close>

definition frameAt :: "nat \<Rightarrow> 64 word \<Rightarrow> vec3 \<Rightarrow> Frame" where
  "frameAt cam ts t =
     \<lparr>cameraId = cam, camera = Some \<lparr>timeStamp = ts, rotation = (1, 0, 0, 0), translation = t\<rparr>,
      features2D = [], odometry = None\<rparr>"

definition ex_graph :: "Frame list list list" where
  "ex_graph = [[[frameAt 0 1 (0, 0, 0)]], [[frameAt 1 2 (0, 0, 0)]]]"

subsection \<open>The reprojection error\<close>

text \<open>
  \<^verbatim>\<open>reprojectionError(camera, P, cam_ref_q, cam_ref_t, ref_p, ref_att, observed_p)\<close>, lines
  1087 to 1106, composes quaternions and calls the camera model; it is the argument
  \<open>E camera P T_cam_ref ref_p ref_att observed_p\<close> of the model, the camera given by its
  index and the extrinsic by its pose.
\<close>

type_synonym reprojection = "nat \<Rightarrow> vec3 \<Rightarrow> Pose \<Rightarrow> vec3 \<Rightarrow> vec3 \<Rightarrow> vec2 \<Rightarrow> real"

text \<open>The loop of lines 1123 to 1151 over the features of a frame; the accumulator is
  \<open>(minError, maxError, totalError, count)\<close>.\<close>

fun frameErrors ::
  "reprojection \<Rightarrow> calibration \<Rightarrow> Frame \<Rightarrow> Pose \<Rightarrow> nat list \<Rightarrow> real \<times> real \<times> real \<times> nat
     \<Rightarrow> error + real \<times> real \<times> real \<times> nat"
where
  "frameErrors E st frame T_cam_ref [] acc = Inr acc"
| "frameErrors E st frame T_cam_ref (feature2D # features) (minError, maxError, totalError, count) =
     (case f2d_feature3D st feature2D of
        None \<Rightarrow> frameErrors E st frame T_cam_ref features (minError, maxError, totalError, count)
      | Some feature3D \<Rightarrow>
          (case odometry frame of
             None \<Rightarrow> Inl NullPointer
           | Some odo \<Rightarrow>
               (let err = E (cameraId frame) (f3d_point st feature3D) T_cam_ref
                            (position odo) (attitude odo) (f2d_keypoint st feature2D)
                in frameErrors E st frame T_cam_ref features
                     (if minError > err then err else minError,
                      if maxError < err then err else maxError,
                      totalError + err, count + 1))))"

text \<open>\<^verbatim>\<open>frameReprojectionError(frame, camera, T_cam_ref, minError, maxError, avgError,
  featureCount)\<close>, lines 1108 to 1165; the result is the four output arguments.\<close>

definition frameReprojectionError ::
  "reprojection \<Rightarrow> calibration \<Rightarrow> Frame \<Rightarrow> Pose \<Rightarrow> error + real \<times> real \<times> real \<times> nat"
where
  "frameReprojectionError E st frame T_cam_ref =
     (case frameErrors E st frame T_cam_ref (features2D frame) (DBL_MAX, DBL_MIN, 0, 0) of
        Inl e \<Rightarrow> Inl e
      | Inr (minError, maxError, totalError, count) \<Rightarrow>
          if count = 0 then Inr (0, 0, 0, 0)
          else Inr (minError, maxError, totalError / real count, count))"

text \<open>The loops of lines 1232 to 1263 over the frames of all sets.\<close>

fun setErrors ::
  "reprojection \<Rightarrow> calibration \<Rightarrow> Frame list \<Rightarrow> real \<times> real \<times> real \<times> nat
     \<Rightarrow> error + real \<times> real \<times> real \<times> nat"
where
  "setErrors E st [] acc = Inr acc"
| "setErrors E st (frame # fs) (minError, maxError, totalError, count) =
     (case vat (m_extrinsics st) (cameraId frame) of
        Inl e \<Rightarrow> Inl e
      | Inr T_cam_ref \<Rightarrow>
          if \<not> cameraId frame < m_cameras st then Inl OutOfRange
          else
            (case frameReprojectionError E st frame T_cam_ref of
               Inl e \<Rightarrow> Inl e
             | Inr (frameMinError, frameMaxError, frameAvgError, frameFeatureCount) \<Rightarrow>
                 setErrors E st fs
                   (if minError > frameMinError then frameMinError else minError,
                    if maxError < frameMaxError then frameMaxError else maxError,
                    totalError + frameAvgError * real frameFeatureCount,
                    count + frameFeatureCount)))"

text \<open>\<^verbatim>\<open>reprojectionError(minError, maxError, avgError, featureCount)\<close>, lines 1222 to
  1277.\<close>

definition reprojectionError :: "reprojection \<Rightarrow> calibration \<Rightarrow> error + real \<times> real \<times> real \<times> nat" where
  "reprojectionError E st =
     (case setErrors E st (concat (map frames (m_framesets st))) (DBL_MAX, DBL_MIN, 0, 0) of
        Inl e \<Rightarrow> Inl e
      | Inr (minError, maxError, totalError, count) \<Rightarrow>
          if count = 0 then Inr (0, 0, 0, 0)
          else Inr (minError, maxError, totalError / real count, count))"

subsection \<open>\<^verbatim>\<open>run\<close>: the initial extrinsics\<close>

text \<open>
  The pose algebra of \<^verbatim>\<open>run\<close> is done by Eigen and by \<^verbatim>\<open>quaternionAvg\<close> and \<^verbatim>\<open>mat2RPY\<close>; the
  model takes it as two arguments:
  \<^item> \<open>relPose p0 pj\<close> is the pose of \<^verbatim>\<open>H_cam_ref = poses.at(0) * poses.at(j).inverse()\<close>
    (lines 386 to 389);
  \<^item> \<open>fuse\<close> maps the pairs (camera pose, \<open>T_cam_ref\<close> of its camera) of the frames of a set
    to the position and the attitude (yaw, pitch, roll) of the set (lines 397 to 411
    and 417 to 422: \<^verbatim>\<open>H = cameraPose->pose().inverse() * T_cam_ref.pose().inverse()\<close>, the
    mean of the translations, the quaternion average).
\<close>

text \<open>Lines 371 to 377: the poses of the frames of a set, filed by camera id; an entry
  not written stays uninitialised (\<open>None\<close>).\<close>

fun fillPoses :: "Frame list \<Rightarrow> Pose option list \<Rightarrow> error + Pose option list" where
  "fillPoses [] poses = Inr poses"
| "fillPoses (frame # fs) poses =
     (case camera frame of
        None \<Rightarrow> Inl NullPointer
      | Some pose \<Rightarrow>
          (case vset poses (cameraId frame) (Some pose) of
             Inl e \<Rightarrow> Inl e
           | Inr poses' \<Rightarrow> fillPoses fs poses'))"

text \<open>Lines 379 to 392, the candidate \<open>T_cam_ref\<close> of a set: the identity for camera 0,
  \<open>relPose\<close> of the poses of camera 0 and camera \<open>j\<close> for the others.\<close>

definition hypothesis :: "(Pose \<Rightarrow> Pose \<Rightarrow> Pose) \<Rightarrow> nat \<Rightarrow> FrameSet \<Rightarrow> error + Pose list" where
  "hypothesis relPose n frameset =
     (case fillPoses (frames frameset) (replicate n None) of
        Inl e \<Rightarrow> Inl e
      | Inr poses \<Rightarrow>
          if n = 0 then Inl OutOfRange
          else
            (case mapE (\<lambda>j. case poses ! 0 of
                               None \<Rightarrow> Inl UninitialisedRead
                             | Some p0 \<Rightarrow>
                                 (case poses ! j of
                                    None \<Rightarrow> Inl UninitialisedRead
                                  | Some pj \<Rightarrow> Inr (relPose p0 pj)))
                        [1 ..< n] of
               Inl e \<Rightarrow> Inl e
             | Inr T \<Rightarrow> Inr (Identity # T)))"

text \<open>\<^verbatim>\<open>m_extrinsics.setGlobalCameraPose(j, T.at(j).pose())\<close> for the cameras \<open>j\<close> of a list
  (lines 391 and 449 to 452: the cameras from 1 on; line 942: all cameras).\<close>

fun setGlobalCameraPoses :: "nat list \<Rightarrow> Pose list \<Rightarrow> Pose list \<Rightarrow> error + Pose list" where
  "setGlobalCameraPoses [] T extrinsics = Inr extrinsics"
| "setGlobalCameraPoses (j # js) T extrinsics =
     (case vat T j of
        Inl e \<Rightarrow> Inl e
      | Inr pose \<Rightarrow>
          (case vset extrinsics j pose of
             Inl e \<Rightarrow> Inl e
           | Inr extrinsics' \<Rightarrow> setGlobalCameraPoses js T extrinsics'))"

text \<open>Lines 400 to 409 and 465 to 474: the pairs \<open>fuse\<close> works on.\<close>

definition posePairs :: "Pose list \<Rightarrow> Frame list \<Rightarrow> error + (Pose \<times> Pose) list" where
  "posePairs T_cam_ref fs =
     mapE (\<lambda>frame. case vat T_cam_ref (cameraId frame) of
                      Inl e \<Rightarrow> Inl e
                    | Inr T \<Rightarrow> (case camera frame of
                                   None \<Rightarrow> Inl NullPointer
                                 | Some cameraPose \<Rightarrow> Inr (cameraPose, T)))
          fs"

text \<open>Lines 396 to 427, for one set: a new odometry, with the time stamp of the pose of
  the first frame, given to every frame of the set.\<close>

definition trialOdometry ::
  "((Pose \<times> Pose) list \<Rightarrow> vec3 \<times> vec3) \<Rightarrow> Pose list \<Rightarrow> FrameSet \<Rightarrow> error + FrameSet"
where
  "trialOdometry fuse T_cam_ref frameset =
     (case posePairs T_cam_ref (frames frameset) of
        Inl e \<Rightarrow> Inl e
      | Inr pairs \<Rightarrow>
          (case vat (frames frameset) 0 of
             Inl e \<Rightarrow> Inl e
           | Inr frame0 \<Rightarrow>
               (case camera frame0 of
                  None \<Rightarrow> Inl NullPointer
                | Some pose0 \<Rightarrow>
                    (let odo = \<lparr>odoTimeStamp = timeStamp pose0, position = fst (fuse pairs),
                                attitude = snd (fuse pairs)\<rparr>
                     in Inr (frameset\<lparr>frames := map (\<lambda>f. f\<lparr>odometry := Some odo\<rparr>)
                                                     (frames frameset)\<rparr>)))))"

text \<open>Lines 459 to 493, for one set: the odometry of the first frame takes the new
  position and attitude, and every frame of the set refers to it.\<close>

definition finalOdometry ::
  "((Pose \<times> Pose) list \<Rightarrow> vec3 \<times> vec3) \<Rightarrow> Pose list \<Rightarrow> FrameSet \<Rightarrow> error + FrameSet"
where
  "finalOdometry fuse T_cam_ref frameset =
     (case posePairs T_cam_ref (frames frameset) of
        Inl e \<Rightarrow> Inl e
      | Inr pairs \<Rightarrow>
          (case vat (frames frameset) 0 of
             Inl e \<Rightarrow> Inl e
           | Inr frame0 \<Rightarrow>
               (case odometry frame0 of
                  None \<Rightarrow> Inl NullPointer
                | Some odo0 \<Rightarrow>
                    (let odo = odo0\<lparr>position := fst (fuse pairs), attitude := snd (fuse pairs)\<rparr>
                     in Inr (frameset\<lparr>frames := map (\<lambda>f. f\<lparr>odometry := Some odo\<rparr>)
                                                     (frames frameset)\<rparr>)))))"

text \<open>
  The body of the loop of lines 362 to 441 for a complete set, up to the evaluation:
  its \<open>T_cam_ref\<close> is written to the extrinsics of the cameras from 1 on, and every set
  gets its trial odometry.
\<close>

definition tryHypothesis ::
  "(Pose \<Rightarrow> Pose \<Rightarrow> Pose) \<Rightarrow> ((Pose \<times> Pose) list \<Rightarrow> vec3 \<times> vec3) \<Rightarrow> FrameSet \<Rightarrow> calibration
     \<Rightarrow> error + Pose list \<times> calibration"
where
  "tryHypothesis relPose fuse frameset st =
     (case hypothesis relPose (m_cameras st) frameset of
        Inl e \<Rightarrow> Inl e
      | Inr T_cam_ref \<Rightarrow>
          (case setGlobalCameraPoses [1 ..< m_cameras st] T_cam_ref (m_extrinsics st) of
             Inl e \<Rightarrow> Inl e
           | Inr extrinsics \<Rightarrow>
               (case mapE (trialOdometry fuse T_cam_ref) (m_framesets st) of
                  Inl e \<Rightarrow> Inl e
                | Inr framesets \<Rightarrow>
                    Inr (T_cam_ref, st\<lparr>m_extrinsics := extrinsics, m_framesets := framesets\<rparr>))))"

text \<open>
  The loop of lines 362 to 441 over the indices of the sets; the accumulator is
  \<open>(minReprojError, best_T_cam_ref)\<close> and the state.
\<close>

fun searchHypotheses ::
  "(Pose \<Rightarrow> Pose \<Rightarrow> Pose) \<Rightarrow> ((Pose \<times> Pose) list \<Rightarrow> vec3 \<times> vec3) \<Rightarrow> reprojection \<Rightarrow> nat list
     \<Rightarrow> real \<times> Pose list \<Rightarrow> calibration \<Rightarrow> error + (real \<times> Pose list) \<times> calibration"
where
  "searchHypotheses relPose fuse E [] best st = Inr (best, st)"
| "searchHypotheses relPose fuse E (i # is) (minReprojError, best_T_cam_ref) st =
     (case vat (m_framesets st) i of
        Inl e \<Rightarrow> Inl e
      | Inr frameset \<Rightarrow>
          if length (frames frameset) < m_cameras st
          then searchHypotheses relPose fuse E is (minReprojError, best_T_cam_ref) st
          else
            (case tryHypothesis relPose fuse frameset st of
               Inl e \<Rightarrow> Inl e
             | Inr (T_cam_ref, st') \<Rightarrow>
                 (case reprojectionError E st' of
                    Inl e \<Rightarrow> Inl e
                  | Inr (minError, maxError, avgError, featureCount) \<Rightarrow>
                      searchHypotheses relPose fuse E is
                        (if avgError < minReprojError then (avgError, T_cam_ref)
                         else (minReprojError, best_T_cam_ref))
                        st')))"

text \<open>
  Lines 350 to 494 of \<^verbatim>\<open>run\<close>: camera 0 is made the reference, the search runs, and
  either no complete set was found (the error is reported and \<^verbatim>\<open>run\<close> returns) or the
  best \<open>T_cam_ref\<close> is installed and the odometry of every set computed from it.
\<close>

datatype outcome = NoCompleteFrameSets | Initialized | Refined

definition initialize ::
  "(Pose \<Rightarrow> Pose \<Rightarrow> Pose) \<Rightarrow> ((Pose \<times> Pose) list \<Rightarrow> vec3 \<times> vec3) \<Rightarrow> reprojection \<Rightarrow> calibration
     \<Rightarrow> error + outcome \<times> calibration"
where
  "initialize relPose fuse E st =
     (case vset (m_extrinsics st) 0 Identity of
        Inl e \<Rightarrow> Inl e
      | Inr extrinsics0 \<Rightarrow>
          (case searchHypotheses relPose fuse E [0 ..< length (m_framesets st)] (DBL_MAX, [])
                  (st\<lparr>m_extrinsics := extrinsics0\<rparr>) of
             Inl e \<Rightarrow> Inl e
           | Inr ((minReprojError, best_T_cam_ref), st1) \<Rightarrow>
               if minReprojError = DBL_MAX then Inr (NoCompleteFrameSets, st1)
               else
                 (case setGlobalCameraPoses [1 ..< m_cameras st1] best_T_cam_ref (m_extrinsics st1) of
                    Inl e \<Rightarrow> Inl e
                  | Inr extrinsics \<Rightarrow>
                      (case mapE (finalOdometry fuse best_T_cam_ref) (m_framesets st1) of
                         Inl e \<Rightarrow> Inl e
                       | Inr framesets \<Rightarrow>
                           Inr (Initialized,
                                st1\<lparr>m_extrinsics := extrinsics, m_framesets := framesets\<rparr>)))))"

subsection \<open>\<^verbatim>\<open>optimize\<close> and \<^verbatim>\<open>run\<close>\<close>

text \<open>
  The parameter blocks \<^verbatim>\<open>optimize\<close> hands to Ceres: the rotation and the translation of
  \<open>T_cam_ref\<close> of a camera, the position and the attitude of the odometry of a set (one
  object for the frames of a set, as \<^verbatim>\<open>run\<close> leaves them), and the point of a
  \<^verbatim>\<open>Point3DFeature\<close>. A residual block has a camera, an observed key point, the scene
  point when it is a constant of the cost function, and its parameter blocks.
\<close>

datatype block =
  ExtrinsicRotation nat | ExtrinsicTranslation nat
  | OdometryPosition nat | OdometryAttitude nat | ScenePoint nat

record residual =
  res_camera :: nat
  res_observed :: vec2
  res_point :: "vec3 option"
  res_blocks :: "block list"

record problem =
  residuals :: "residual list"
  parameterized :: "block list"

record variables =
  v_rotation :: "nat \<Rightarrow> quat"
  v_translation :: "nat \<Rightarrow> vec3"
  v_position :: "nat \<Rightarrow> vec3"
  v_attitude :: "nat \<Rightarrow> vec3"
  v_point :: "nat \<Rightarrow> vec3"

text \<open>Lines 877 to 916: the residual blocks of the features of frame \<open>frame\<close> of set \<open>i\<close>
  that have a scene point.\<close>

fun frameResiduals :: "bool \<Rightarrow> calibration \<Rightarrow> nat \<Rightarrow> Frame \<Rightarrow> nat list \<Rightarrow> error + residual list" where
  "frameResiduals optimizeScenePoints st i frame [] = Inr []"
| "frameResiduals optimizeScenePoints st i frame (feature2D # features) =
     (case f2d_feature3D st feature2D of
        None \<Rightarrow> frameResiduals optimizeScenePoints st i frame features
      | Some feature3D \<Rightarrow>
          if \<not> cameraId frame < m_cameras st then Inl OutOfRange
          else if odometry frame = None then Inl NullPointer
          else
            (case frameResiduals optimizeScenePoints st i frame features of
               Inl e \<Rightarrow> Inl e
             | Inr rs \<Rightarrow>
                 Inr (\<lparr>res_camera = cameraId frame,
                       res_observed = f2d_keypoint st feature2D,
                       res_point = (if optimizeScenePoints then None
                                    else Some (f3d_point st feature3D)),
                       res_blocks =
                         [ExtrinsicRotation (cameraId frame), ExtrinsicTranslation (cameraId frame),
                          OdometryPosition i, OdometryAttitude i]
                         @ (if optimizeScenePoints then [ScenePoint feature3D] else [])\<rparr> # rs)))"

text \<open>Lines 869 to 918 from set \<open>i\<close> on.\<close>

fun setResiduals :: "bool \<Rightarrow> calibration \<Rightarrow> nat \<Rightarrow> FrameSet list \<Rightarrow> error + residual list" where
  "setResiduals optimizeScenePoints st i [] = Inr []"
| "setResiduals optimizeScenePoints st i (frameset # framesets) =
     (case mapE (\<lambda>frame. frameResiduals optimizeScenePoints st i frame (features2D frame))
                (frames frameset) of
        Inl e \<Rightarrow> Inl e
      | Inr rss \<Rightarrow>
          (case setResiduals optimizeScenePoints st (Suc i) framesets of
             Inl e \<Rightarrow> Inl e
           | Inr rs \<Rightarrow> Inr (concat rss @ rs)))"

text \<open>Lines 862 to 926: the problem, with the quaternion parameterisation of the
  rotation of every camera. No block is set constant anywhere in the file.\<close>

definition buildProblem :: "bool \<Rightarrow> calibration \<Rightarrow> error + problem" where
  "buildProblem optimizeScenePoints st =
     (case setResiduals optimizeScenePoints st 0 (m_framesets st) of
        Inl e \<Rightarrow> Inl e
      | Inr rs \<Rightarrow>
          Inr \<lparr>residuals = rs, parameterized = map ExtrinsicRotation [0 ..< m_cameras st]\<rparr>)"

definition blocksOf :: "problem \<Rightarrow> block set" where
  "blocksOf p = set (concat (map res_blocks (residuals p)))"

text \<open>The values of the blocks before the solve.\<close>

definition odometryOf :: "FrameSet \<Rightarrow> Odometry option" where
  "odometryOf frameset = (case frames frameset of [] \<Rightarrow> None | f # _ \<Rightarrow> odometry f)"

definition variablesOf :: "Pose list \<Rightarrow> calibration \<Rightarrow> variables" where
  "variablesOf T_cam_ref st =
     \<lparr>v_rotation = (\<lambda>i. if i < length T_cam_ref then rotation (T_cam_ref ! i) else (1, 0, 0, 0)),
      v_translation = (\<lambda>i. if i < length T_cam_ref then translation (T_cam_ref ! i) else (0, 0, 0)),
      v_position = (\<lambda>i. if i < length (m_framesets st)
                          then (case odometryOf (m_framesets st ! i) of
                                  None \<Rightarrow> (0, 0, 0) | Some odo \<Rightarrow> position odo)
                          else (0, 0, 0)),
      v_attitude = (\<lambda>i. if i < length (m_framesets st)
                          then (case odometryOf (m_framesets st ! i) of
                                  None \<Rightarrow> (0, 0, 0) | Some odo \<Rightarrow> attitude odo)
                          else (0, 0, 0)),
      v_point = f3d_point st\<rparr>"

text \<open>
  \<^verbatim>\<open>ceres::Solve\<close> is the argument \<open>solve\<close>: from the problem and the values of the blocks
  it gives new values. Ceres writes the blocks of the problem and no other memory:
  \<open>solved\<close> keeps the old value of every block that no residual has.
\<close>

definition solved :: "(problem \<Rightarrow> variables \<Rightarrow> variables) \<Rightarrow> problem \<Rightarrow> variables \<Rightarrow> variables" where
  "solved solve p v =
     (let w = solve p v in
      \<lparr>v_rotation = (\<lambda>i. if ExtrinsicRotation i \<in> blocksOf p then v_rotation w i else v_rotation v i),
       v_translation = (\<lambda>i. if ExtrinsicTranslation i \<in> blocksOf p then v_translation w i
                             else v_translation v i),
       v_position = (\<lambda>i. if OdometryPosition i \<in> blocksOf p then v_position w i else v_position v i),
       v_attitude = (\<lambda>i. if OdometryAttitude i \<in> blocksOf p then v_attitude w i else v_attitude v i),
       v_point = (\<lambda>a. if ScenePoint a \<in> blocksOf p then v_point w a else v_point v a)\<rparr>)"

text \<open>
  \<^verbatim>\<open>optimize(optimizeScenePoints)\<close>, lines 840 to 956: \<open>T_cam_ref\<close> is read from the
  extrinsics of all cameras (lines 844 to 848), the problem is built and solved, and
  \<open>T_cam_ref\<close> is written back for all cameras (lines 942 to 945). The odometry and the
  scene points are solved in place.
\<close>

definition optimize ::
  "(problem \<Rightarrow> variables \<Rightarrow> variables) \<Rightarrow> bool \<Rightarrow> calibration \<Rightarrow> error + calibration"
where
  "optimize solve optimizeScenePoints st =
     (case mapE (vat (m_extrinsics st)) [0 ..< m_cameras st] of
        Inl e \<Rightarrow> Inl e
      | Inr T_cam_ref \<Rightarrow>
          (case buildProblem optimizeScenePoints st of
             Inl e \<Rightarrow> Inl e
           | Inr p \<Rightarrow>
               (let w = solved solve p (variablesOf T_cam_ref st);
                    T_cam_ref' = map (\<lambda>i. (T_cam_ref ! i)\<lparr>rotation := v_rotation w i,
                                                         translation := v_translation w i\<rparr>)
                                     [0 ..< m_cameras st];
                    framesets = map (\<lambda>i. (m_framesets st ! i)\<lparr>frames :=
                                       map (\<lambda>f. f\<lparr>odometry :=
                                              map_option (\<lambda>odo. odo\<lparr>position := v_position w i,
                                                                     attitude := v_attitude w i\<rparr>)
                                                         (odometry f)\<rparr>)
                                           (frames (m_framesets st ! i))\<rparr>)
                                    [0 ..< length (m_framesets st)]
                in case setGlobalCameraPoses [0 ..< m_cameras st] T_cam_ref' (m_extrinsics st) of
                     Inl e \<Rightarrow> Inl e
                   | Inr extrinsics \<Rightarrow>
                       Inr (st\<lparr>m_extrinsics := extrinsics, m_framesets := framesets,
                               f3d_point := v_point w\<rparr>))))"

text \<open>\<^verbatim>\<open>run\<close>, lines 258 to 512 (the diagnostics under \<^verbatim>\<open>m_verbose\<close> are left out): the
  initialisation, then \<^verbatim>\<open>optimize(false)\<close> unless no complete set was found.\<close>

definition run ::
  "(Pose \<Rightarrow> Pose \<Rightarrow> Pose) \<Rightarrow> ((Pose \<times> Pose) list \<Rightarrow> vec3 \<times> vec3) \<Rightarrow> reprojection
     \<Rightarrow> (problem \<Rightarrow> variables \<Rightarrow> variables) \<Rightarrow> calibration \<Rightarrow> error + outcome \<times> calibration"
where
  "run relPose fuse E solve st =
     (case initialize relPose fuse E st of
        Inl e \<Rightarrow> Inl e
      | Inr (NoCompleteFrameSets, st1) \<Rightarrow> Inr (NoCompleteFrameSets, st1)
      | Inr (_, st1) \<Rightarrow>
          (case optimize solve False st1 of
             Inl e \<Rightarrow> Inl e
           | Inr st2 \<Rightarrow> Inr (Refined, st2)))"

subsection \<open>The vocabulary of the claims about \<^verbatim>\<open>addFrameSet\<close>\<close>

text \<open>
  A set is well formed for \<open>n\<close> cameras when its frames have distinct camera ids below
  \<open>n\<close> and each has a pose; the sets \<^verbatim>\<open>addFrameSet\<close> appends are.
\<close>

definition framesetOK :: "nat \<Rightarrow> FrameSet \<Rightarrow> bool" where
  "framesetOK n frameset =
     (distinct (map cameraId (frames frameset)) \<and>
      (\<forall>f \<in> set (frames frameset). cameraId f < n \<and> camera f \<noteq> None))"

text \<open>
  The cameras present in a set with their poses, and the claim's translation
  magnitudes: for each camera present in both the previous and the new set, the
  displacement between its two poses.
\<close>

definition posesOf :: "Frame list \<Rightarrow> (nat \<times> Pose) list" where
  "posesOf fs = concat (map (\<lambda>f. case camera f of None \<Rightarrow> [] | Some p \<Rightarrow> [(cameraId f, p)]) fs)"

definition sharedDisplacements :: "(Pose \<Rightarrow> vec3) \<Rightarrow> Frame list \<Rightarrow> Frame list \<Rightarrow> real list" where
  "sharedDisplacements centre prev cur =
     concat (map (\<lambda>(i, pc).
       concat (map (\<lambda>(j, pp). if j = i then [displacement centre pc pp] else []) (posesOf prev)))
       (posesOf cur))"

text \<open>The displacements the loop of lines 168 to 182 compares, position by position.\<close>

fun pairDisplacements :: "(Pose \<Rightarrow> vec3) \<Rightarrow> Frame option list \<Rightarrow> Frame option list \<Rightarrow> real list" where
  "pairDisplacements centre (Some prev # framePrev) (Some cur # frameCurr) =
     (case camera cur of
        None \<Rightarrow> pairDisplacements centre framePrev frameCurr
      | Some pc \<Rightarrow>
          (case camera prev of
             None \<Rightarrow> pairDisplacements centre framePrev frameCurr
           | Some pp \<Rightarrow> displacement centre pc pp # pairDisplacements centre framePrev frameCurr))"
| "pairDisplacements centre (_ # framePrev) (_ # frameCurr) = pairDisplacements centre framePrev frameCurr"
| "pairDisplacements centre _ _ = []"

text \<open>The pose \<^verbatim>\<open>estimateCameraPose\<close> gives a frame, as a function of what the library
  calls found.\<close>

definition poseFound :: "('img \<Rightarrow> nat \<Rightarrow> bool \<Rightarrow> Localization) \<Rightarrow> 'img \<Rightarrow> nat \<Rightarrow> 64 word \<Rightarrow> bool \<Rightarrow> Pose option" where
  "poseFound localize img cam ts preprocess =
     (let loc = localize img cam preprocess in
      if bestInlierCount loc < k_minCorrespondences2D3D then None
      else Some \<lparr>timeStamp = ts, rotation = best_rotation loc, translation = best_translation loc\<rparr>)"

text \<open>The camera ids of the sets of \<open>m_framesets\<close>, when a call returned.\<close>

definition setsOf :: "error + calibration \<Rightarrow> nat list list option" where
  "setsOf r = (case r of Inl e \<Rightarrow> None | Inr st \<Rightarrow> Some (map (\<lambda>s. map cameraId (frames s)) (m_framesets st)))"

text \<open>The entry of \<open>m_feature3DMap\<close> for a reference point, when a call returned.\<close>

definition feature3DOf :: "error + calibration \<Rightarrow> nat \<Rightarrow> nat option" where
  "feature3DOf r p3D = (case r of Inl e \<Rightarrow> None | Inr st \<Rightarrow> m_feature3DMap st p3D)"

text \<open>
  A localiser for the evaluations: the image is the translation to be found (25 key
  points, all inliers on the reference point 0), or \<open>None\<close> for an image on which
  nothing is found; rotations are the identity, for which the camera centre is the
  negated translation. \<open>ex_accepted\<close> is a state with one accepted set.
\<close>

definition ex_localize :: "vec3 option \<Rightarrow> nat \<Rightarrow> bool \<Rightarrow> Localization" where
  "ex_localize img cam preprocess =
     (case img of
        None \<Rightarrow> \<lparr>keypoints = [(1, 1)], bestInlierCount = 0, bestCorr2D3D = [],
                 best_rotation = (1, 0, 0, 0), best_translation = (0, 0, 0)\<rparr>
      | Some t \<Rightarrow> \<lparr>keypoints = replicate 25 (1, 1), bestInlierCount = 25,
                   bestCorr2D3D = map (\<lambda>i. (i, 0)) [0 ..< 25],
                   best_rotation = (1, 0, 0, 0), best_translation = t\<rparr>)"

definition ex_centre :: "Pose \<Rightarrow> vec3" where
  "ex_centre p = (case translation p of (x, y, z) \<Rightarrow> (- x, - y, - z))"

definition ex_accepted :: calibration where
  "ex_accepted = (initial 2 [(0, 0, 0)])\<lparr>m_framesets :=
     [\<lparr>frames = [frameAt 0 1 (0, 0, 0), frameAt 1 1 (1, 0, 0)], timestamp = 1\<rparr>]\<rparr>"

subsection \<open>The vocabulary of the claims about \<^verbatim>\<open>run\<close>\<close>

text \<open>
  A set is structurally complete for \<open>n\<close> cameras when it has a localised frame for every
  camera. A state is well formed when it has a camera, one extrinsic pose per camera,
  and sets that are not empty and well formed, as \<^verbatim>\<open>addFrameSet\<close> appends them.
  \<open>hypothesisError\<close> is the average reprojection error of the hypothesis of a set: the
  value the loop of lines 360 to 438 compares.
\<close>

definition structurallyComplete :: "nat \<Rightarrow> FrameSet \<Rightarrow> bool" where
  "structurallyComplete n frameset =
     (\<forall>j < n. \<exists>f \<in> set (frames frameset). cameraId f = j \<and> camera f \<noteq> None)"

definition wellFormed :: "calibration \<Rightarrow> bool" where
  "wellFormed st =
     (0 < m_cameras st \<and> length (m_extrinsics st) = m_cameras st \<and>
      (\<forall>frameset \<in> set (m_framesets st).
         frames frameset \<noteq> [] \<and> framesetOK (m_cameras st) frameset))"

definition hypothesisError ::
  "(Pose \<Rightarrow> Pose \<Rightarrow> Pose) \<Rightarrow> ((Pose \<times> Pose) list \<Rightarrow> vec3 \<times> vec3) \<Rightarrow> reprojection \<Rightarrow> calibration
     \<Rightarrow> FrameSet \<Rightarrow> real option"
where
  "hypothesisError relPose fuse E st frameset =
     (case tryHypothesis relPose fuse frameset st of
        Inl e \<Rightarrow> None
      | Inr (T_cam_ref, st') \<Rightarrow>
          (case reprojectionError E st' of
             Inl e \<Rightarrow> None
           | Inr (minError, maxError, avgError, featureCount) \<Rightarrow> Some avgError))"

text \<open>
  What the loop of the hypotheses leaves of a state: \<open>stripOdometry\<close> forgets the odometry
  of the frames of a set, which every trial overwrites; \<open>trialValue\<close> is the odometry a
  trial with the extrinsics \<open>T\<close> gives a set and \<open>withOdometry\<close> the set with it;
  \<open>sameSkeleton st0 st\<close> says that \<open>st\<close> is \<open>st0\<close> but for the extrinsics of the cameras from
  1 on and the odometry of the frames; \<open>hypState fuse T st0\<close> is the state a trial with \<open>T\<close>
  leaves.
\<close>

definition stripOdometry :: "FrameSet \<Rightarrow> FrameSet" where
  "stripOdometry frameset = frameset\<lparr>frames := map (\<lambda>f. f\<lparr>odometry := None\<rparr>) (frames frameset)\<rparr>"

definition trialValue ::
  "((Pose \<times> Pose) list \<Rightarrow> vec3 \<times> vec3) \<Rightarrow> Pose list \<Rightarrow> FrameSet \<Rightarrow> Odometry" where
  "trialValue fuse T frameset =
     (let pairs = map (\<lambda>f. (the (camera f), T ! cameraId f)) (frames frameset) in
      \<lparr>odoTimeStamp = timeStamp (the (camera (hd (frames frameset)))),
       position = fst (fuse pairs), attitude = snd (fuse pairs)\<rparr>)"

definition withOdometry :: "Odometry \<Rightarrow> FrameSet \<Rightarrow> FrameSet" where
  "withOdometry odo frameset =
     frameset\<lparr>frames := map (\<lambda>f. f\<lparr>odometry := Some odo\<rparr>) (frames frameset)\<rparr>"

definition sameSkeleton :: "calibration \<Rightarrow> calibration \<Rightarrow> bool" where
  "sameSkeleton st0 st =
     (st = st0\<lparr>m_extrinsics := m_extrinsics st, m_framesets := m_framesets st\<rparr> \<and>
      length (m_extrinsics st) = length (m_extrinsics st0) \<and>
      m_extrinsics st ! 0 = m_extrinsics st0 ! 0 \<and>
      map stripOdometry (m_framesets st) = map stripOdometry (m_framesets st0))"

definition hypState ::
  "((Pose \<times> Pose) list \<Rightarrow> vec3 \<times> vec3) \<Rightarrow> Pose list \<Rightarrow> calibration \<Rightarrow> calibration" where
  "hypState fuse T st0 =
     st0\<lparr>m_extrinsics := (m_extrinsics st0 ! 0) # tl T,
         m_framesets := map (\<lambda>fs. withOdometry (trialValue fuse T fs) fs) (m_framesets st0)\<rparr>"

text \<open>
  \<open>cameraObserved st c\<close>: a frame of camera \<open>c\<close> has a feature with a scene point, so that
  \<^verbatim>\<open>optimize\<close> adds a residual block with the extrinsic of \<open>c\<close>. \<open>solverInput\<close> is the value of
  the blocks when \<^verbatim>\<open>ceres::Solve\<close> is called.
\<close>

definition cameraObserved :: "calibration \<Rightarrow> nat \<Rightarrow> bool" where
  "cameraObserved st c =
     (\<exists>frameset \<in> set (m_framesets st). \<exists>f \<in> set (frames frameset).
        cameraId f = c \<and> (\<exists>p \<in> set (features2D f). f2d_feature3D st p \<noteq> None))"

definition solverInput :: "calibration \<Rightarrow> variables" where
  "solverInput st = variablesOf (take (m_cameras st) (m_extrinsics st)) st"


definition referenceOf :: "error + outcome \<times> calibration \<Rightarrow> Pose option" where
  "referenceOf r =
     (case r of
        Inl e \<Rightarrow> None
      | Inr (out, st) \<Rightarrow> (case vat (m_extrinsics st) 0 of Inl e \<Rightarrow> None | Inr T \<Rightarrow> Some T))"

subsection \<open>Feature matcher: \<^verbatim>\<open>buildDescriptorMat\<close> and \<^verbatim>\<open>matchFeatures\<close>\<close>

text \<open>A descriptor is a one-row \<^verbatim>\<open>cv::Mat\<close>: its width, its element type code and its
  data. \<open>Mat\<close> is the descriptor matrix built from a feature list.\<close>

record Descriptor =
  dcols :: nat
  dtype :: int
  ddata :: "real list"

record Mat =
  mrows :: "real list list"
  mcols :: nat
  mtype :: int

record DMatch =
  queryIdx :: int
  trainIdx :: int
  distance :: real

text \<open>The default \<^verbatim>\<open>cv::DMatch\<close>.\<close>

definition DMatch_default :: DMatch where
  "DMatch_default = \<lparr>queryIdx = - 1, trainIdx = - 1, distance = FLT_MAX\<rparr>"

text \<open>
  \<^verbatim>\<open>buildDescriptorMat(features, indices)\<close>, lines 958 to 975, on the descriptors of the
  features. The indices \<open>0..<n\<close> are appended to \<open>indices\<close>; \<^verbatim>\<open>features.at(0)\<close> is
  read whatever the size, so an empty list throws. Row \<open>i\<close> receives descriptor
  \<open>indices[i]\<close>.
\<close>

definition buildDescriptorMat :: "Descriptor list \<Rightarrow> nat list \<Rightarrow> error + (Mat \<times> nat list)" where
  "buildDescriptorMat features indices =
     (let indices' = indices @ [0 ..< length features] in
      case vat features 0 of
        Inl e \<Rightarrow> Inl e
      | Inr f0 \<Rightarrow>
          (case those (map (\<lambda>i. case vat features i of Inl e \<Rightarrow> None | Inr f \<Rightarrow> Some (ddata f)) indices') of
             None \<Rightarrow> Inl OutOfRange
           | Some rs \<Rightarrow> Inr (\<lparr>mrows = rs, mcols = dcols f0, mtype = dtype f0\<rparr>, indices')))"

text \<open>
  The \<^verbatim>\<open>float\<close> arithmetic of the ratio test. A finite \<^verbatim>\<open>float\<close> is a real number; the
  quotient of two of them is rounded to the nearest \<^verbatim>\<open>float\<close> (binary32: a significand of
  24 bits, exponents from \<open>- 126\<close> to \<open>127\<close>, ties to the even significand), or is an
  infinity or a NaN.

  \<open>binade x\<close> is the exponent of the binade of \<open>x\<close>: the greatest \<open>e\<close> from \<open>- 126\<close> to \<open>127\<close>
  with \<open>2 ^ e \<le> \<bar>x\<bar>\<close>, and \<open>- 126\<close> for the subnormal numbers. The \<^verbatim>\<open>float\<close>s of that
  binade are the multiples of \<open>2 ^ (e - 23)\<close>.
\<close>

datatype fratio = Finite real | PosInf | NegInf | NaN

fun binadeFrom :: "nat \<Rightarrow> real \<Rightarrow> int" where
  "binadeFrom 0 x = - 126"
| "binadeFrom (Suc n) x = (if 2 powi (int n - 125) \<le> x then int n - 125 else binadeFrom n x)"

definition binade :: "real \<Rightarrow> int" where
  "binade x = binadeFrom 253 \<bar>x\<bar>"

definition roundHalfEven :: "real \<Rightarrow> int" where
  "roundHalfEven x =
     (let f = \<lfloor>x\<rfloor>; r = x - of_int f in
      if r < 1 / 2 then f else if 1 / 2 < r then f + 1 else if even f then f else f + 1)"

definition roundf :: "real \<Rightarrow> fratio" where
  "roundf x =
     (let quantum = 2 powi (binade x - 23);
          y = of_int (roundHalfEven (x / quantum)) * quantum
      in if FLT_MAX < y then PosInf else if y < - FLT_MAX then NegInf else Finite y)"

text \<open>
  The division \<^verbatim>\<open>match.at(0).distance / match.at(1).distance\<close> of two finite \<^verbatim>\<open>float\<close>s,
  stored in a \<^verbatim>\<open>float\<close> (lines 1015 and 1033), and the comparison of its outcome with a
  finite number: a NaN compares false, the infinities compare as such.
\<close>

definition fdiv :: "real \<Rightarrow> real \<Rightarrow> fratio" where
  "fdiv a b =
     (if b \<noteq> 0 then roundf (a / b)
      else if 0 < a then PosInf
      else if a < 0 then NegInf
      else NaN)"

fun fless :: "fratio \<Rightarrow> real \<Rightarrow> bool" where
  "fless (Finite r) k = (r < k)"
| "fless PosInf k = False"
| "fless NegInf k = True"
| "fless NaN k = False"

fun fgeq :: "fratio \<Rightarrow> real \<Rightarrow> bool" where
  "fgeq (Finite r) k = (k \<le> r)"
| "fgeq PosInf k = True"
| "fgeq NegInf k = False"
| "fgeq NaN k = False"

text \<open>
  One pass of the ratio test (the body of the loops of lines 1006 to 1021 and 1024 to
  1039): a candidate list with fewer than two entries is skipped, otherwise its first
  entry is kept when \<open>distance[0] / distance[1] < k_maxDistanceRatio\<close>.
\<close>

definition distanceRatio :: "DMatch list \<Rightarrow> fratio" where
  "distanceRatio match = fdiv (distance (match ! 0)) (distance (match ! 1))"

definition ratioTest :: "DMatch list \<Rightarrow> DMatch list" where
  "ratioTest match =
     (if length match < 2 then []
      else if fless (distanceRatio match) k_maxDistanceRatio then [match ! 0]
      else [])"

text \<open>
  The cross-check loop, lines 1043 to 1068, over the remaining forward rows; \<open>matches\<close>
  is the result so far.
\<close>

fun crossCheck ::
  "DMatch list list \<Rightarrow> DMatch list list \<Rightarrow> nat list \<Rightarrow> nat list \<Rightarrow> DMatch list \<Rightarrow> error + DMatch list"
where
  "crossCheck [] revMatches queryIndices trainIndices matches = Inr matches"
| "crossCheck ([] # fwdMatches) revMatches queryIndices trainIndices matches =
     crossCheck fwdMatches revMatches queryIndices trainIndices matches"
| "crossCheck ((fwdMatch # _) # fwdMatches) revMatches queryIndices trainIndices matches =
     (case vat_int revMatches (trainIdx fwdMatch) of
        Inl e \<Rightarrow> Inl e
      | Inr [] \<Rightarrow> crossCheck fwdMatches revMatches queryIndices trainIndices matches
      | Inr (revMatch # _) \<Rightarrow>
          if queryIdx fwdMatch = trainIdx revMatch \<and> trainIdx fwdMatch = queryIdx revMatch
          then (case vat_int queryIndices (queryIdx fwdMatch) of
                  Inl e \<Rightarrow> Inl e
                | Inr q \<Rightarrow>
                    (case vat_int trainIndices (queryIdx revMatch) of
                       Inl e \<Rightarrow> Inl e
                     | Inr t \<Rightarrow>
                         crossCheck fwdMatches revMatches queryIndices trainIndices
                           (matches @ [DMatch_default\<lparr>queryIdx := int q, trainIdx := int t\<rparr>])))
          else crossCheck fwdMatches revMatches queryIndices trainIndices matches)"

text \<open>
  \<^verbatim>\<open>matchFeatures(queryFeatures, trainFeatures)\<close>, lines 977 to 1071. \<open>knnMatch\<close> is
  \<^verbatim>\<open>SurfGPU::knnMatch(query, train, matches, k)\<close>: one row of up to \<open>k\<close> candidates per
  query descriptor, nearest first.
\<close>

definition matchFeatures ::
  "(Mat \<Rightarrow> Mat \<Rightarrow> nat \<Rightarrow> DMatch list list) \<Rightarrow> Descriptor list \<Rightarrow> Descriptor list \<Rightarrow> error + DMatch list"
where
  "matchFeatures knnMatch queryFeatures trainFeatures =
     (case buildDescriptorMat queryFeatures [] of
        Inl e \<Rightarrow> Inl e
      | Inr (queryDtor, queryIndices) \<Rightarrow>
          (case buildDescriptorMat trainFeatures [] of
             Inl e \<Rightarrow> Inl e
           | Inr (trainDtor, trainIndices) \<Rightarrow>
               if mcols queryDtor \<noteq> mcols trainDtor then Inr []
               else if mtype queryDtor \<noteq> mtype trainDtor then Inr []
               else
                 (let candidateFwdMatches = knnMatch queryDtor trainDtor 2;
                      candidateRevMatches = knnMatch trainDtor queryDtor 2;
                      fwdMatches = map ratioTest candidateFwdMatches;
                      revMatches = map ratioTest candidateRevMatches
                  in crossCheck fwdMatches revMatches queryIndices trainIndices [])))"

text \<open>
  The vocabulary of the claims about the matcher. \<open>bestMatch candidates i\<close> is the
  ratio-passing nearest neighbour of descriptor \<open>i\<close>: the train index of the first
  candidate of row \<open>i\<close>, when the row passes the ratio test. \<open>rowsIndexed\<close> is the
  convention of \<^verbatim>\<open>knnMatch\<close> that the candidates of row \<open>i\<close> carry \<open>queryIdx = i\<close>.
\<close>

definition bestMatch :: "DMatch list list \<Rightarrow> int \<Rightarrow> int option" where
  "bestMatch candidates i =
     (case vat_int candidates i of
        Inl e \<Rightarrow> None
      | Inr row \<Rightarrow> (case ratioTest row of [] \<Rightarrow> None | c # _ \<Rightarrow> Some (trainIdx c)))"

definition rowsIndexed :: "DMatch list list \<Rightarrow> bool" where
  "rowsIndexed candidates =
     (\<forall>i < length candidates. \<forall>c \<in> set (candidates ! i). queryIdx c = int i)"

text \<open>Where a match of the result of the cross-check comes from.\<close>

definition crossed ::
  "DMatch list list \<Rightarrow> DMatch list list \<Rightarrow> nat list \<Rightarrow> nat list \<Rightarrow> DMatch \<Rightarrow> bool"
where
  "crossed fwdMatches revMatches queryIndices trainIndices m =
     (\<exists>fwdMatch fr revMatch rr q t.
        fwdMatch # fr \<in> set fwdMatches \<and>
        vat_int revMatches (trainIdx fwdMatch) = Inr (revMatch # rr) \<and>
        queryIdx fwdMatch = trainIdx revMatch \<and> trainIdx fwdMatch = queryIdx revMatch \<and>
        vat_int queryIndices (queryIdx fwdMatch) = Inr q \<and>
        vat_int trainIndices (queryIdx revMatch) = Inr t \<and>
        m = DMatch_default\<lparr>queryIdx := int q, trainIdx := int t\<rparr>)"

text \<open>
  A matcher given by its two tables of candidates, for the evaluations below: asked
  with the query matrix \<open>queryDtor\<close> first it answers \<open>forward\<close>, else \<open>backward\<close>.
\<close>

definition tableMatcher ::
  "Mat \<Rightarrow> DMatch list list \<Rightarrow> DMatch list list \<Rightarrow> Mat \<Rightarrow> Mat \<Rightarrow> nat \<Rightarrow> DMatch list list"
where
  "tableMatcher queryDtor forward backward q t k =
     map (take k) (if q = queryDtor then forward else backward)"

definition descr :: "nat \<Rightarrow> int \<Rightarrow> real list \<Rightarrow> Descriptor" where
  "descr c ty d = \<lparr>dcols = c, dtype = ty, ddata = d\<rparr>"

definition cand :: "int \<Rightarrow> int \<Rightarrow> real \<Rightarrow> DMatch" where
  "cand q t d = \<lparr>queryIdx = q, trainIdx = t, distance = d\<rparr>"

text \<open>The running example of the matcher: two query and two train descriptors.\<close>

definition ex_query :: "Descriptor list" where
  "ex_query = [descr 1 5 [1], descr 1 5 [2]]"

definition ex_train :: "Descriptor list" where
  "ex_train = [descr 1 5 [3], descr 1 5 [4]]"

definition ex_queryDtor :: Mat where
  "ex_queryDtor = \<lparr>mrows = [[1], [2]], mcols = 1, mtype = 5\<rparr>"

definition ex_trainDtor :: Mat where
  "ex_trainDtor = \<lparr>mrows = [[3], [4]], mcols = 1, mtype = 5\<rparr>"

definition ex_fwd :: "DMatch list list" where
  "ex_fwd = [[cand 0 1 1, cand 0 0 2], [cand 1 0 1, cand 1 1 1]]"

definition ex_rev :: "DMatch list list" where
  "ex_rev = [[cand 0 1 1, cand 0 0 2], [cand 1 0 1, cand 1 1 3]]"

definition ex_tie :: "DMatch list list" where
  "ex_tie = [[cand 0 1 7, cand 0 0 10], [cand 1 0 (11744051 / 2 ^ 24), cand 1 1 1]]"

text \<open>Three calls for the evaluation of the store loop: two images that are localised,
  of one camera at two times, and between them an image on which nothing is found.\<close>

definition ex_calls :: "(vec3 option \<times> nat \<times> 64 word) list" where
  "ex_calls = [(Some (0, 0, 0), 0, 1), (None, 1, 1), (Some (1, 0, 0), 0, 2)]"

text \<open>
  A rig of two cameras for the evaluation of \<^verbatim>\<open>run\<close>: two complete sets, with camera 1 at 2
  and at 1 from camera 0, each frame with one feature on the scene point 1. The relative
  pose is the difference of the translations, the fused odometry is constant, and the
  reprojection error of a feature is the distance of the first coordinate of the
  extrinsic translation from 1: the hypothesis of the first set has the average error 2
  and that of the second \<open>3 / 2\<close>. \<open>ex_solve\<close> is a solver that returns the translations for
  which every error is 0, and \<open>ex_idle\<close> one that changes nothing. \<open>ex_partial\<close> has three
  cameras and the first set only.
\<close>

definition ex_relPose :: "Pose \<Rightarrow> Pose \<Rightarrow> Pose" where
  "ex_relPose p0 pj =
     \<lparr>timeStamp = 0, rotation = (1, 0, 0, 0), translation = minus3 (translation p0) (translation pj)\<rparr>"

definition ex_fuse :: "(Pose \<times> Pose) list \<Rightarrow> vec3 \<times> vec3" where
  "ex_fuse pairs = ((0, 0, 0), (0, 0, 0))"

definition ex_E :: reprojection where
  "ex_E cam P T_cam_ref ref_p ref_att observed_p = \<bar>fst (translation T_cam_ref) - 1\<bar>"

definition ex_solve :: "problem \<Rightarrow> variables \<Rightarrow> variables" where
  "ex_solve p v = v\<lparr>v_translation := (\<lambda>i. (1, 0, 0))\<rparr>"

definition ex_idle :: "problem \<Rightarrow> variables \<Rightarrow> variables" where
  "ex_idle p v = v"

definition frameWith :: "nat \<Rightarrow> 64 word \<Rightarrow> vec3 \<Rightarrow> nat list \<Rightarrow> Frame" where
  "frameWith cam ts t ps = (frameAt cam ts t)\<lparr>features2D := ps\<rparr>"

definition ex_setA :: FrameSet where
  "ex_setA = \<lparr>frames = [frameWith 0 1 (0, 0, 0) [0], frameWith 1 1 (2, 0, 0) [1]], timestamp = 1\<rparr>"

definition ex_setB :: FrameSet where
  "ex_setB = \<lparr>frames = [frameWith 0 2 (5, 0, 0) [2], frameWith 1 2 (6, 0, 0) [3]], timestamp = 2\<rparr>"

definition ex_rig :: calibration where
  "ex_rig = (initial 2 [(0, 0, 5)])
     \<lparr>m_framesets := [ex_setA, ex_setB],
      m_feature3DMap := [0 \<mapsto> 1],
      f2d_feature3D := (\<lambda>p. if p < 4 then Some 1 else None),
      f3d_point := (\<lambda>a. (0, 0, 5)),
      next_f2d := 4, next_f3d := 2\<rparr>"

definition ex_rig0 :: calibration where
  "ex_rig0 = ex_rig\<lparr>m_extrinsics := (m_extrinsics ex_rig)[0 := Identity]\<rparr>"


section \<open>The odometry distance\<close>

lemma addOdometry_fields:
  "m_x_last (addOdometry x y yaw ts st) = x"
  "m_y_last (addOdometry x y yaw ts st) = y"
  "m_distance (addOdometry x y yaw ts st) =
     m_distance st + (if (m_x_last st, m_y_last st) \<noteq> (0, 0)
                      then hypot (x - m_x_last st) (y - m_y_last st) else 0)"
  by (auto simp: addOdometry_def Let_def)

lemma xy_simp: "xy (x, y, yaw, ts) = (x, y)"
  by (simp add: xy_def)

lemma addOdometries_distance:
  "m_distance (addOdometries samples st) =
     m_distance st + gatedLength ((m_x_last st, m_y_last st) # map xy samples)"
proof (induction samples arbitrary: st)
  case Nil
  then show ?case by simp
next
  case (Cons s samples)
  obtain x y yaw ts where s: "s = (x, y, yaw, ts)" by (cases s) auto
  show ?case
    unfolding s addOdometries.simps Cons.IH
    by (simp add: addOdometry_fields xy_simp)
qed

lemma gatedLength_pathLength:
  "(0, 0) \<notin> set (butlast ps) \<Longrightarrow> gatedLength ps = pathLength ps"
  by (induction ps rule: pathLength.induct) (auto split: if_splits)

lemma hypot_3_4: "hypot 3 4 = 5"
  using real_sqrt_abs [of 5] by (simp add: hypot_def)

text \<open>
  Claim C3, as amended. From a state with \<open>m_x_last = m_y_last = m_distance = 0\<close> (as
  the constructor and \<open>reset\<close> leave it), and for every sequence of \<open>addOdometry\<close> calls
  in which no sample but possibly the last is exactly \<open>(0, 0)\<close>, the distance
  accumulator is the sum of the Euclidean distances between consecutive \<open>(x, y)\<close>
  samples; the first call adds nothing. (In general the sum leaves out every pair
  whose earlier sample is \<open>(0, 0)\<close>: lemma \<open>addOdometries_distance\<close>.)
\<close>

theorem addOdometry_path_length:
  assumes "m_x_last st = 0" and "m_y_last st = 0" and "m_distance st = 0"
    and "(0, 0) \<notin> set (butlast (map xy samples))"
  shows "m_distance (addOdometries samples st) = pathLength (map xy samples)"
proof -
  have "m_distance (addOdometries samples st) = gatedLength ((0, 0) # map xy samples)"
    using assms(1-3) by (simp add: addOdometries_distance)
  also have "\<dots> = gatedLength (map xy samples)"
    by (cases "map xy samples") simp_all
  also have "\<dots> = pathLength (map xy samples)"
    using assms(4) by (rule gatedLength_pathLength)
  finally show ?thesis .
qed

text \<open>
  Claim C3 as stated fails: the code takes \<open>m_x_last = m_y_last = 0\<close> for "no sample
  yet", so after a first sample at \<open>(0, 0)\<close> the step to \<open>(3, 4)\<close> adds nothing, where the
  path length is 5.
\<close>

theorem addOdometry_path_length_counterexample:
  "m_distance (addOdometries [(0, 0, 0, 1), (3, 4, 0, 2)] (initial 2 [])) = 0 \<and>
   pathLength (map xy [(0, 0, 0, 1), (3, 4, 0, 2)]) = 5 \<and>
   m_distance (addOdometries [(0, 0, 0, 1), (3, 4, 0, 2)] (initial 2 []))
     \<noteq> pathLength (map xy [(0, 0, 0, 1), (3, 4, 0, 2)])"
  by (simp add: addOdometry_def initial_def xy_simp hypot_3_4)

text \<open>Three samples, the last one at \<open>(0, 0)\<close>.\<close>

theorem addOdometry_path_length_witness:
  "m_distance (addOdometries [(1, 1, 0, 1), (4, 5, 0, 2), (0, 0, 0, 3)] (initial 2 []))
     = pathLength [(1, 1), (4, 5), (0, 0)] \<and>
   pathLength [(1, 1), (4, 5), (0, 0)] = 5 + sqrt 41"
  using addOdometry_path_length [of "initial 2 []" "[(1, 1, 0, 1), (4, 5, 0, 2), (0, 0, 0, 3)]"]
  by (simp add: initial_def xy_simp hypot_3_4) (simp add: hypot_def)

section \<open>The Feature3D map\<close>

lemma storeCorrespondence_map_mono:
  "m_feature3DMap st r = Some a \<Longrightarrow> m_feature3DMap (storeCorrespondence c st) r = Some a"
  by (auto simp: storeCorrespondence_def Let_def split: option.splits)

lemma storeCorrespondence_attach:
  "f2d_feature3D (storeCorrespondence (p, r) st) p = m_feature3DMap (storeCorrespondence (p, r) st) r \<and>
   m_feature3DMap (storeCorrespondence (p, r) st) r \<noteq> None"
  by (auto simp: storeCorrespondence_def Let_def split: option.splits)

lemma storeCorrespondence_other:
  "p \<noteq> fst c \<Longrightarrow> f2d_feature3D (storeCorrespondence c st) p = f2d_feature3D st p"
  by (auto simp: storeCorrespondence_def Let_def split: option.splits)

lemma storeCorrespondence_next_f2d:
  "next_f2d (storeCorrespondence c st) = next_f2d st"
  by (auto simp: storeCorrespondence_def Let_def split: option.splits)

lemma newFeatures_fields:
  "m_feature3DMap (newFeatures kps st) = m_feature3DMap st"
  "next_f2d (newFeatures kps st) = next_f2d st + length kps"
  "p < next_f2d st \<Longrightarrow> f2d_feature3D (newFeatures kps st) p = f2d_feature3D st p"
  by (simp_all add: newFeatures_def Let_def)

lemma step_map_mono:
  "m_feature3DMap st r = Some a \<Longrightarrow> m_feature3DMap (step e st) r = Some a"
  by (cases e) (simp_all add: newFeatures_fields storeCorrespondence_map_mono)

lemma exec_map_mono:
  "m_feature3DMap st r = Some a \<Longrightarrow> m_feature3DMap (exec evs st) r = Some a"
  by (induction evs arbitrary: st) (simp_all add: step_map_mono)

lemma exec_keeps_feature3D:
  "lastStore evs p = None \<Longrightarrow> p < next_f2d st \<Longrightarrow>
   f2d_feature3D (exec evs st) p = f2d_feature3D st p"
proof (induction evs arbitrary: st)
  case Nil
  then show ?case by simp
next
  case (Cons e evs)
  show ?case
  proof (cases e)
    case (NewFeatures kps)
    with Cons.prems have "lastStore evs p = None" "p < next_f2d (newFeatures kps st)"
      by (simp_all add: newFeatures_fields)
    from Cons.IH [OF this] NewFeatures Cons.prems(2) show ?thesis
      by (simp add: newFeatures_fields)
  next
    case (Store p2D p3D)
    with Cons.prems have "lastStore evs p = None" "p2D \<noteq> p"
      "p < next_f2d (storeCorrespondence (p2D, p3D) st)"
      by (auto simp: storeCorrespondence_next_f2d split: option.splits if_splits)
    from Cons.IH [OF this(1,3)] Store this(2) show ?thesis
      by (simp add: storeCorrespondence_other)
  qed
qed

lemma exec_last_store:
  "storesAllocated evs st \<Longrightarrow> lastStore evs p = Some r \<Longrightarrow>
   f2d_feature3D (exec evs st) p = m_feature3DMap (exec evs st) r \<and>
   m_feature3DMap (exec evs st) r \<noteq> None"
proof (induction evs arbitrary: st)
  case Nil
  then show ?case by simp
next
  case (Cons e evs)
  show ?case
  proof (cases e)
    case (NewFeatures kps)
    with Cons show ?thesis by simp
  next
    case (Store p2D p3D)
    let ?st = "storeCorrespondence (p2D, p3D) st"
    from Cons.prems(1) Store have al: "p2D < next_f2d st" "storesAllocated evs ?st"
      by simp_all
    show ?thesis
    proof (cases "lastStore evs p")
      case (Some r')
      with Cons.prems(2) Store have "lastStore evs p = Some r" by simp
      from Cons.IH [OF al(2) this] Store show ?thesis by simp
    next
      case None
      with Cons.prems(2) Store have eq: "p2D = p" "p3D = r"
        by (simp_all split: if_splits)
      from storeCorrespondence_attach [of p r st] obtain a where
        a: "m_feature3DMap ?st r = Some a" "f2d_feature3D ?st p = Some a"
        unfolding eq by auto
      have "p < next_f2d ?st"
        using al(1) eq by (simp add: storeCorrespondence_next_f2d)
      from exec_keeps_feature3D [OF None this] exec_map_mono [OF a(1), of evs] a(2) Store
      show ?thesis by simp
    qed
  qed
qed

text \<open>The state of a call of \<open>estimateCameraPose\<close> is the state of such a trace.\<close>

lemma storeInliers_exec:
  "storeInliers cs st = exec (map (\<lambda>(p, r). Store p r) cs) st"
  by (induction cs arbitrary: st) auto

lemma estimateCameraPose_exec:
  "snd (estimateCameraPose localize img ts frame preprocess st) =
     (let loc = localize img (cameraId frame) preprocess in
      exec (NewFeatures (keypoints loc) #
            (if bestInlierCount loc < k_minCorrespondences2D3D then []
             else map (\<lambda>(i, r). Store (next_f2d st + i) r) (bestCorr2D3D loc))) st)"
  by (simp add: estimateCameraPose_def Let_def storeInliers_exec split_def comp_def)

text \<open>
  The passes of the store loop of concurrent calls interleave. In every trace of feature
  creations and passes, two features whose last pass was with the same reference point
  are attached to the instance the map holds for it.
\<close>

lemma exec_same_instance:
  assumes "storesAllocated evs st"
    and "lastStore evs p = Some r" and "lastStore evs q = Some r"
  shows "f2d_feature3D (exec evs st) p = f2d_feature3D (exec evs st) q \<and>
         f2d_feature3D (exec evs st) p = m_feature3DMap (exec evs st) r \<and>
         f2d_feature3D (exec evs st) p \<noteq> None"
  using exec_last_store [OF assms(1,2)] exec_last_store [OF assms(1,3)]
  by simp

lemma grows_refl: "mapAllocated st \<Longrightarrow> grows st st"
  by (simp add: grows_def)

lemma grows_dom: "grows st st' \<Longrightarrow> dom (m_feature3DMap st) \<subseteq> dom (m_feature3DMap st')"
  by (auto simp: grows_def)

lemma grows_trans:
  assumes ab: "grows a b" and bc: "grows b c" and ma: "mapAllocated a"
  shows "grows a c"
proof -
  let ?A = "dom (m_feature3DMap a)" and ?B = "dom (m_feature3DMap b)" and ?C = "dom (m_feature3DMap c)"
  have sub: "?A \<subseteq> ?B" "?B \<subseteq> ?C" using grows_dom [OF ab] grows_dom [OF bc] by simp_all
  have mb: "mapAllocated b" using ab by (simp add: grows_def)
  have split: "?C - ?A = (?C - ?B) \<union> (?B - ?A)" "(?C - ?B) \<inter> (?B - ?A) = {}"
    using sub by auto
  have fin: "finite (?C - ?B)" "finite (?B - ?A)" using ab bc by (simp_all add: grows_def)
  have card: "card (?C - ?A) = card (?C - ?B) + card (?B - ?A)"
    unfolding split(1) using fin split(2) by (rule card_Un_disjoint)
  have n: "next_f3d c = next_f3d a + card (?C - ?A)"
    using ab bc card by (simp add: grows_def)
  have f: "finite (?C - ?A)" unfolding split(1) using fin by simp
  have le: "next_f3d a \<le> next_f3d b" "next_f3d b \<le> next_f3d c"
    using ab bc by (simp_all add: grows_def)
  have mono: "\<forall>r x. m_feature3DMap a r = Some x \<longrightarrow> m_feature3DMap c r = Some x"
    using ab bc by (simp add: grows_def)
  have keep: "\<forall>x < next_f3d a. f3d_point c x = f3d_point a x \<and>
           set (f3d_features2D a x) \<subseteq> set (f3d_features2D c x)"
  proof (intro allI impI)
    fix x assume x: "x < next_f3d a"
    with le have xb: "x < next_f3d b" by simp
    from ab x have 1: "f3d_point b x = f3d_point a x" "set (f3d_features2D a x) \<subseteq> set (f3d_features2D b x)"
      by (simp_all add: grows_def)
    from bc xb have 2: "f3d_point c x = f3d_point b x" "set (f3d_features2D b x) \<subseteq> set (f3d_features2D c x)"
      by (simp_all add: grows_def)
    from 1 2 show "f3d_point c x = f3d_point a x \<and>
           set (f3d_features2D a x) \<subseteq> set (f3d_features2D c x)" by auto
  qed
  have new: "\<forall>r x. m_feature3DMap c r = Some x \<longrightarrow>
           m_feature3DMap a r = Some x \<or>
           (next_f3d a \<le> x \<and> (r < next_f3d a \<longrightarrow> f3d_point c x = f3d_point a r))"
  proof (intro allI impI)
    fix r x assume c: "m_feature3DMap c r = Some x"
    from bc c consider "m_feature3DMap b r = Some x"
      | "next_f3d b \<le> x" "r < next_f3d b \<longrightarrow> f3d_point c x = f3d_point b r"
      unfolding grows_def by blast
    then show "m_feature3DMap a r = Some x \<or>
           (next_f3d a \<le> x \<and> (r < next_f3d a \<longrightarrow> f3d_point c x = f3d_point a r))"
    proof cases
      case 1
      with mb have xb: "x < next_f3d b" by (auto simp: mapAllocated_def)
      with bc have pc: "f3d_point c x = f3d_point b x" by (simp add: grows_def)
      from ab 1 consider "m_feature3DMap a r = Some x"
        | "next_f3d a \<le> x" "r < next_f3d a \<longrightarrow> f3d_point b x = f3d_point a r"
        unfolding grows_def by blast
      then show ?thesis using pc by cases auto
    next
      case 2
      have "r < next_f3d a \<longrightarrow> f3d_point c x = f3d_point a r"
      proof
        assume r: "r < next_f3d a"
        with le have "r < next_f3d b" by simp
        with 2 have "f3d_point c x = f3d_point b r" by simp
        also from ab r have "f3d_point b r = f3d_point a r" by (simp add: grows_def)
        finally show "f3d_point c x = f3d_point a r" .
      qed
      with 2 le show ?thesis by simp
    qed
  qed
  from bc have "mapAllocated c" by (simp add: grows_def)
  with le mono keep new f n show ?thesis
    unfolding grows_def by simp
qed

lemma storeCorrespondence_grows:
  assumes "mapAllocated st"
  shows "grows st (storeCorrespondence c st)"
proof (cases "m_feature3DMap st (snd c)")
  case None
  let ?st' = "storeCorrespondence c st"
  have m: "m_feature3DMap ?st' = (m_feature3DMap st)(snd c \<mapsto> next_f3d st)"
    and n: "next_f3d ?st' = Suc (next_f3d st)"
    and pt: "f3d_point ?st' = (f3d_point st)(next_f3d st := f3d_point st (snd c))"
    and fs: "f3d_features2D ?st' = (f3d_features2D st)(next_f3d st := [fst c])"
    using None by (simp_all add: storeCorrespondence_def Let_def)
  have d: "dom (m_feature3DMap ?st') - dom (m_feature3DMap st) = {snd c}"
    using None unfolding m by auto
  show ?thesis
    unfolding grows_def d using assms None
    by (auto simp: m n pt fs mapAllocated_def less_Suc_eq)
next
  case (Some a)
  let ?st' = "storeCorrespondence c st"
  have m: "m_feature3DMap ?st' = m_feature3DMap st"
    and n: "next_f3d ?st' = next_f3d st"
    and pt: "f3d_point ?st' = f3d_point st"
    and fs: "f3d_features2D ?st' = (f3d_features2D st)(a := f3d_features2D st a @ [fst c])"
    using Some by (simp_all add: storeCorrespondence_def Let_def)
  show ?thesis
    unfolding grows_def using assms
    by (auto simp: m n pt fs mapAllocated_def)
qed

lemma storeInliers_grows:
  "mapAllocated st \<Longrightarrow> grows st (storeInliers cs st)"
proof (induction cs arbitrary: st)
  case Nil
  then show ?case by (simp add: grows_refl)
next
  case (Cons c cs)
  from storeCorrespondence_grows [OF Cons.prems, of c]
  have g: "grows st (storeCorrespondence c st)" .
  then have "mapAllocated (storeCorrespondence c st)" by (simp add: grows_def)
  from grows_trans [OF g Cons.IH [OF this] Cons.prems] show ?case by simp
qed

lemma newFeatures_grows: "mapAllocated st \<Longrightarrow> grows st (newFeatures kps st)"
  by (simp add: grows_def newFeatures_def Let_def mapAllocated_def)

lemma estimateCameraPose_grows:
  assumes "mapAllocated st"
  shows "grows st (snd (estimateCameraPose localize img ts frame preprocess st))"
proof -
  let ?loc = "localize img (cameraId frame) preprocess"
  let ?st1 = "newFeatures (keypoints ?loc) st"
  have g1: "grows st ?st1" by (rule newFeatures_grows [OF assms])
  then have "mapAllocated ?st1" by (simp add: grows_def)
  from grows_trans [OF g1 storeInliers_grows [OF this] assms] g1
  show ?thesis
    by (simp add: estimateCameraPose_def Let_def)
qed

lemma estimatePoses_grows:
  "mapAllocated st \<Longrightarrow> grows st (snd (estimatePoses localize calls preprocess st))"
proof (induction calls arbitrary: st)
  case Nil
  then show ?case by (simp add: grows_refl)
next
  case (Cons c calls)
  obtain img cam ts where c: "c = (img, cam, ts)" by (cases c)
  let ?st1 = "snd (estimateCameraPose localize img ts (Frame_new\<lparr>cameraId := cam\<rparr>) preprocess st)"
  have g: "grows st ?st1" by (rule estimateCameraPose_grows [OF Cons.prems])
  then have "mapAllocated ?st1" by (simp add: grows_def)
  from grows_trans [OF g Cons.IH [OF this] Cons.prems] show ?case
    by (simp add: c split_def Let_def)
qed

lemma estimatePoses_Cons:
  "snd (estimatePoses localize ((img, cam, ts) # calls) preprocess st) =
     snd (estimatePoses localize calls preprocess
            (snd (estimateCameraPose localize img ts (Frame_new\<lparr>cameraId := cam\<rparr>) preprocess st)))"
  "fst (estimatePoses localize ((img, cam, ts) # calls) preprocess st) =
     fst (estimateCameraPose localize img ts (Frame_new\<lparr>cameraId := cam\<rparr>) preprocess st) #
     fst (estimatePoses localize calls preprocess
            (snd (estimateCameraPose localize img ts (Frame_new\<lparr>cameraId := cam\<rparr>) preprocess st)))"
  by (simp_all add: split_def Let_def)

lemma estimatePoses_append:
  "snd (estimatePoses localize (xs @ ys) preprocess st) =
     snd (estimatePoses localize ys preprocess (snd (estimatePoses localize xs preprocess st)))"
proof (induction xs arbitrary: st)
  case Nil
  then show ?case by simp
next
  case (Cons c xs)
  obtain img cam ts where c: "c = (img, cam, ts)" by (cases c)
  show ?case unfolding c append_Cons estimatePoses_Cons Cons.IH ..
qed

lemma estimatePoses_nth:
  "j < length calls \<Longrightarrow> calls ! j = (img, cam, ts) \<Longrightarrow>
   fst (estimatePoses localize calls preprocess st) ! j =
     fst (estimateCameraPose localize img ts (Frame_new\<lparr>cameraId := cam\<rparr>) preprocess
            (snd (estimatePoses localize (take j calls) preprocess st)))"
proof (induction calls arbitrary: st j)
  case Nil
  then show ?case by simp
next
  case (Cons c calls)
  obtain img' cam' ts' where c: "c = (img', cam', ts')" by (cases c)
  show ?case
  proof (cases j)
    case 0
    with Cons.prems c show ?thesis by (simp add: split_def Let_def)
  next
    case (Suc j')
    with Cons.prems have "j' < length calls" "calls ! j' = (img, cam, ts)" by simp_all
    from Cons.IH [OF this] show ?thesis
      unfolding c Suc take_Suc_Cons estimatePoses_Cons by simp
  qed
qed

lemma storeInliers_fields:
  "next_f2d (storeInliers cs st) = next_f2d st"
  "p \<notin> fst ` set cs \<Longrightarrow> f2d_feature3D (storeInliers cs st) p = f2d_feature3D st p"
proof -
  show "next_f2d (storeInliers cs st) = next_f2d st"
    by (induction cs arbitrary: st) (simp_all add: storeCorrespondence_next_f2d)
  show "p \<notin> fst ` set cs \<Longrightarrow> f2d_feature3D (storeInliers cs st) p = f2d_feature3D st p"
    by (induction cs arbitrary: st) (simp_all add: storeCorrespondence_other)
qed

lemma storeCorrespondence_attached:
  "\<exists>a. m_feature3DMap (storeCorrespondence (p, r) st) r = Some a \<and>
       f2d_feature3D (storeCorrespondence (p, r) st) p = Some a \<and>
       p \<in> set (f3d_features2D (storeCorrespondence (p, r) st) a)"
  by (auto simp: storeCorrespondence_def Let_def split: option.splits)

lemma storeInliers_attached:
  "mapAllocated st \<Longrightarrow> map_of (rev cs) p = Some r \<Longrightarrow>
   \<exists>a. m_feature3DMap (storeInliers cs st) r = Some a \<and>
       f2d_feature3D (storeInliers cs st) p = Some a \<and>
       p \<in> set (f3d_features2D (storeInliers cs st) a)"
proof (induction cs arbitrary: st)
  case Nil
  then show ?case by simp
next
  case (Cons c cs)
  let ?sc = "storeCorrespondence c st"
  have g: "grows st ?sc" by (rule storeCorrespondence_grows [OF Cons.prems(1)])
  then have ma: "mapAllocated ?sc" by (simp add: grows_def)
  show ?case
  proof (cases "map_of (rev cs) p")
    case (Some r')
    with Cons.prems(2) have "map_of (rev cs) p = Some r"
      by (simp add: map_add_def)
    from Cons.IH [OF ma this] show ?thesis by simp
  next
    case None
    with Cons.prems(2) have c: "c = (p, r)"
      by (cases c) (simp add: map_add_def split: if_splits)
    from None have notin: "p \<notin> fst ` set cs"
      by (simp add: map_of_eq_None_iff)
    from storeCorrespondence_attached [of p r st] obtain a where
      a: "m_feature3DMap ?sc r = Some a" "f2d_feature3D ?sc p = Some a"
         "p \<in> set (f3d_features2D ?sc a)"
      unfolding c by blast
    from ma a(1) have al: "a < next_f3d ?sc" by (auto simp: mapAllocated_def)
    have g2: "grows ?sc (storeInliers cs ?sc)" by (rule storeInliers_grows [OF ma])
    from g2 a(1) have 1: "m_feature3DMap (storeInliers cs ?sc) r = Some a"
      by (simp add: grows_def)
    from g2 al a(3) have 2: "p \<in> set (f3d_features2D (storeInliers cs ?sc) a)"
      by (auto simp: grows_def)
    from storeInliers_fields(2) [OF notin] a(2)
    have 3: "f2d_feature3D (storeInliers cs ?sc) p = Some a" by simp
    from 1 2 3 show ?thesis by simp
  qed
qed

lemma map_of_shift:
  "map_of (map (\<lambda>(i, r). (b + i, r)) cs) (b + i) = map_of cs (i :: nat)"
  by (induction cs) auto

lemma shift_image:
  "fst ` set (map (\<lambda>(i, r). (b + i, r)) cs) \<subseteq> {p. (b :: nat) \<le> p}"
  by auto

lemma estimateCameraPose_fields:
  fixes localize img ts frame preprocess st
  defines "loc \<equiv> localize img (cameraId frame) preprocess"
  defines "st' \<equiv> snd (estimateCameraPose localize img ts frame preprocess st)"
  shows "next_f2d st' = next_f2d st + length (keypoints loc)"
    and "p < next_f2d st \<Longrightarrow> f2d_feature3D st' p = f2d_feature3D st p"
proof -
  let ?cs = "map (\<lambda>(i, p3D). (next_f2d st + i, p3D)) (bestCorr2D3D loc)"
  let ?st1 = "newFeatures (keypoints loc) st"
  show "next_f2d st' = next_f2d st + length (keypoints loc)"
    unfolding st'_def loc_def
    by (simp add: estimateCameraPose_def Let_def storeInliers_fields newFeatures_fields)
  assume p: "p < next_f2d st"
  with shift_image [of "next_f2d st" "bestCorr2D3D loc"] have "p \<notin> fst ` set ?cs"
    by (auto simp del: set_map)
  from storeInliers_fields(2) [OF this, of ?st1] p
  show "f2d_feature3D st' p = f2d_feature3D st p"
    unfolding st'_def loc_def
    by (simp add: estimateCameraPose_def Let_def newFeatures_fields)
qed

lemma estimatePoses_fields:
  "next_f2d st \<le> next_f2d (snd (estimatePoses localize calls preprocess st))"
  "p < next_f2d st \<Longrightarrow>
   f2d_feature3D (snd (estimatePoses localize calls preprocess st)) p = f2d_feature3D st p"
proof -
  show n: "next_f2d st \<le> next_f2d (snd (estimatePoses localize calls preprocess st))" for st
  proof (induction calls arbitrary: st)
    case Nil
    then show ?case by simp
  next
    case (Cons c calls)
    obtain img cam ts where c: "c = (img, cam, ts)" by (cases c)
    show ?case
      unfolding c estimatePoses_Cons
      using Cons.IH [of "snd (estimateCameraPose localize img ts (Frame_new\<lparr>cameraId := cam\<rparr>) preprocess st)"]
      by (simp add: estimateCameraPose_fields(1))
  qed
  show "p < next_f2d st \<Longrightarrow>
   f2d_feature3D (snd (estimatePoses localize calls preprocess st)) p = f2d_feature3D st p"
  proof (induction calls arbitrary: st)
    case Nil
    then show ?case by simp
  next
    case (Cons c calls)
    obtain img cam ts where c: "c = (img, cam, ts)" by (cases c)
    let ?st1 = "snd (estimateCameraPose localize img ts (Frame_new\<lparr>cameraId := cam\<rparr>) preprocess st)"
    from Cons.prems have "p < next_f2d ?st1" by (simp add: estimateCameraPose_fields(1))
    from Cons.IH [OF this] Cons.prems show ?case
      unfolding c estimatePoses_Cons by (simp add: estimateCameraPose_fields(2))
  qed
qed

lemma estimateCameraPose_attached:
  assumes ma: "mapAllocated st"
    and m: "matched (localize img (cameraId frame) preprocess) i r"
  shows "\<exists>a. m_feature3DMap (snd (estimateCameraPose localize img ts frame preprocess st)) r = Some a \<and>
       f2d_feature3D (snd (estimateCameraPose localize img ts frame preprocess st)) (next_f2d st + i) = Some a \<and>
       next_f2d st + i \<in> set (f3d_features2D (snd (estimateCameraPose localize img ts frame preprocess st)) a) \<and>
       next_f2d st + i \<in> set (features2D (fst (estimateCameraPose localize img ts frame preprocess st)))"
proof -
  let ?loc = "localize img (cameraId frame) preprocess"
  let ?cs = "map (\<lambda>(i, p3D). (next_f2d st + i, p3D)) (bestCorr2D3D ?loc)"
  let ?st1 = "newFeatures (keypoints ?loc) st"
  let ?st2 = "storeInliers ?cs ?st1"
  from m have k: "\<not> bestInlierCount ?loc < k_minCorrespondences2D3D"
    and i: "i < length (keypoints ?loc)" and mo: "map_of (rev (bestCorr2D3D ?loc)) i = Some r"
    by (simp_all add: matched_def)
  have e: "snd (estimateCameraPose localize img ts frame preprocess st) = ?st2"
    "features2D (fst (estimateCameraPose localize img ts frame preprocess st)) =
       filter (\<lambda>p. f2d_feature3D ?st2 p \<noteq> None)
         (features2D frame @ [next_f2d st ..< next_f2d st + length (keypoints ?loc)])"
    using k by (simp_all add: estimateCameraPose_def Let_def)
  have "map_of (rev ?cs) (next_f2d st + i) = Some r"
    using mo map_of_shift [of "next_f2d st" "rev (bestCorr2D3D ?loc)" i]
    by (simp add: rev_map)
  moreover have "mapAllocated ?st1"
    using newFeatures_grows [OF ma] by (simp add: grows_def)
  ultimately obtain a where
    a: "m_feature3DMap ?st2 r = Some a" "f2d_feature3D ?st2 (next_f2d st + i) = Some a"
       "next_f2d st + i \<in> set (f3d_features2D ?st2 a)"
    using storeInliers_attached by blast
  with i show ?thesis unfolding e by auto
qed

lemma estimatePoses_attached:
  assumes ma: "mapAllocated st"
    and j: "j < length calls" "calls ! j = (img, cam, ts)"
    and m: "matched (localize img cam preprocess) i r"
    and p: "p = next_f2d (snd (estimatePoses localize (take j calls) preprocess st)) + i"
  shows "\<exists>a. m_feature3DMap (snd (estimatePoses localize calls preprocess st)) r = Some a \<and>
       f2d_feature3D (snd (estimatePoses localize calls preprocess st)) p = Some a \<and>
       p \<in> set (f3d_features2D (snd (estimatePoses localize calls preprocess st)) a) \<and>
       p \<in> set (features2D (fst (estimatePoses localize calls preprocess st) ! j))"
proof -
  let ?stj = "snd (estimatePoses localize (take j calls) preprocess st)"
  let ?call = "estimateCameraPose localize img ts (Frame_new\<lparr>cameraId := cam\<rparr>) preprocess ?stj"
  let ?st' = "snd (estimatePoses localize calls preprocess st)"
  have "grows st ?stj" by (rule estimatePoses_grows [OF ma])
  then have maj: "mapAllocated ?stj" by (simp add: grows_def)
  from m have m': "matched (localize img (cameraId (Frame_new\<lparr>cameraId := cam\<rparr>)) preprocess) i r"
    by simp
  from estimateCameraPose_attached [where frame = "Frame_new\<lparr>cameraId := cam\<rparr>"
      and localize = localize and img = img and preprocess = preprocess and ts = ts, OF maj m']
  obtain a where
    a: "m_feature3DMap (snd ?call) r = Some a" "f2d_feature3D (snd ?call) p = Some a"
       "p \<in> set (f3d_features2D (snd ?call) a)" "p \<in> set (features2D (fst ?call))"
    unfolding p by blast
  have "grows ?stj (snd ?call)" by (rule estimateCameraPose_grows [OF maj])
  then have mac: "mapAllocated (snd ?call)" by (simp add: grows_def)
  with a(1) have al: "a < next_f3d (snd ?call)" by (auto simp: mapAllocated_def)
  from m have "i < length (keypoints (localize img cam preprocess))" by (simp add: matched_def)
  then have pl: "p < next_f2d (snd ?call)"
    unfolding p by (simp add: estimateCameraPose_fields(1))
  have "calls = take j calls @ (img, cam, ts) # drop (Suc j) calls"
    using j by (metis id_take_nth_drop)
  then have "?st' = snd (estimatePoses localize (take j calls @ (img, cam, ts) # drop (Suc j) calls)
                           preprocess st)"
    by simp
  then have st': "?st' = snd (estimatePoses localize (drop (Suc j) calls) preprocess (snd ?call))"
    unfolding estimatePoses_append estimatePoses_Cons .
  have g: "grows (snd ?call) ?st'"
    unfolding st' by (rule estimatePoses_grows [OF mac])
  from g a(1) have 1: "m_feature3DMap ?st' r = Some a" by (simp add: grows_def)
  from g al a(3) have 2: "p \<in> set (f3d_features2D ?st' a)" by (auto simp: grows_def)
  have 3: "f2d_feature3D ?st' p = Some a"
    unfolding st' using estimatePoses_fields(2) [OF pl] a(2) by simp
  have 4: "p \<in> set (features2D (fst (estimatePoses localize calls preprocess st) ! j))"
    unfolding estimatePoses_nth [OF j] using a(4) .
  from 1 2 3 4 show ?thesis by simp
qed

lemma grows_new:
  assumes "grows st st'" and "m_feature3DMap st' r = Some a" and "m_feature3DMap st r = None"
  shows "next_f3d st \<le> a" and "r < next_f3d st \<Longrightarrow> f3d_point st' a = f3d_point st r"
proof -
  from assms(1) have "\<forall>r a. m_feature3DMap st' r = Some a \<longrightarrow>
           m_feature3DMap st r = Some a \<or>
           (next_f3d st \<le> a \<and> (r < next_f3d st \<longrightarrow> f3d_point st' a = f3d_point st r))"
    unfolding grows_def by simp
  with assms(2) have "m_feature3DMap st r = Some a \<or>
           (next_f3d st \<le> a \<and> (r < next_f3d st \<longrightarrow> f3d_point st' a = f3d_point st r))"
    by blast
  with assms(3) show "next_f3d st \<le> a" and "r < next_f3d st \<Longrightarrow> f3d_point st' a = f3d_point st r"
    by simp_all
qed

lemma grows_old:
  "grows st st' \<Longrightarrow> m_feature3DMap st r = Some a0 \<Longrightarrow> m_feature3DMap st' r = Some a0"
  unfolding grows_def by simp

lemma grows_count:
  "grows st st' \<Longrightarrow>
   next_f3d st' = next_f3d st + card (dom (m_feature3DMap st') - dom (m_feature3DMap st))"
  unfolding grows_def by simp

lemma estimatePoses_next_f2d:
  "next_f2d (snd (estimatePoses localize calls preprocess st)) =
     next_f2d st + sum_list (map (\<lambda>(img, cam, ts). length (keypoints (localize img cam preprocess))) calls)"
proof (induction calls arbitrary: st)
  case Nil
  then show ?case by simp
next
  case (Cons c calls)
  obtain img cam ts where c: "c = (img, cam, ts)" by (cases c)
  show ?case
    unfolding c estimatePoses_Cons Cons.IH
    by (simp add: estimateCameraPose_fields(1))
qed

lemma ex_matched: "i < 25 \<Longrightarrow> matched (ex_localize (Some t) cam preprocess) i 0"
proof -
  assume i: "i < 25"
  have "map_of (rev (map (\<lambda>i. (i, 0 :: nat)) [0 ..< 25])) i = Some 0"
    using i by (intro map_of_is_SomeI) (auto simp: rev_map distinct_rev comp_def)
  with i show ?thesis
    by (simp add: matched_def ex_localize_def k_minCorrespondences2D3D_def)
qed

text \<open>
  Claim C6 (Feature3D uniqueness). Let \<^verbatim>\<open>estimateCameraPose\<close> be called for any images, of
  any cameras, in any order, from a state in which the map holds allocated objects. For
  two of the calls that store their inliers, let \<open>p\<close> and \<open>q\<close> be features of their frames
  (feature \<open>i\<close> of the frame of call \<open>j\<close> is the object of address \<open>next_f2d + i\<close> for
  \<open>next_f2d\<close> at the start of the call) whose inlier correspondences are with the same
  reference point \<open>r\<close>. Then both are attached to the same \<^verbatim>\<open>Point3DFeature\<close> instance \<open>a\<close>,
  the one \<open>m_feature3DMap\<close> holds for \<open>r\<close>: both are in its list of features and both stay in
  their frames; \<open>a\<close> is the object the map held for \<open>r\<close> before when there was one (found,
  none made), and else a new object with the point of \<open>r\<close>; and the calls made exactly
  one new object for each reference point they added to the map.
\<close>

theorem feature3D_same_instance:
  assumes "mapAllocated st"
    and "j1 < length calls" and "calls ! j1 = (img1, cam1, ts1)"
    and "j2 < length calls" and "calls ! j2 = (img2, cam2, ts2)"
    and "matched (localize img1 cam1 preprocess) i1 r"
    and "matched (localize img2 cam2 preprocess) i2 r"
    and "p = next_f2d (snd (estimatePoses localize (take j1 calls) preprocess st)) + i1"
    and "q = next_f2d (snd (estimatePoses localize (take j2 calls) preprocess st)) + i2"
    and "estimatePoses localize calls preprocess st = (fs, st')"
  shows "\<exists>a. m_feature3DMap st' r = Some a \<and>
             f2d_feature3D st' p = Some a \<and> f2d_feature3D st' q = Some a \<and>
             p \<in> set (f3d_features2D st' a) \<and> q \<in> set (f3d_features2D st' a) \<and>
             p \<in> set (features2D (fs ! j1)) \<and> q \<in> set (features2D (fs ! j2)) \<and>
             (\<forall>a0. m_feature3DMap st r = Some a0 \<longrightarrow> a = a0) \<and>
             (m_feature3DMap st r = None \<longrightarrow>
                next_f3d st \<le> a \<and> (r < next_f3d st \<longrightarrow> f3d_point st' a = f3d_point st r)) \<and>
             next_f3d st' = next_f3d st + card (dom (m_feature3DMap st') - dom (m_feature3DMap st))"
proof -
  have e: "fst (estimatePoses localize calls preprocess st) = fs"
    "snd (estimatePoses localize calls preprocess st) = st'"
    using assms(10) by simp_all
  from estimatePoses_attached [OF assms(1,2,3,6,8)] obtain a where
    a: "m_feature3DMap st' r = Some a" "f2d_feature3D st' p = Some a"
       "p \<in> set (f3d_features2D st' a)" "p \<in> set (features2D (fs ! j1))"
    unfolding e by blast
  from estimatePoses_attached [OF assms(1,4,5,7,9)] obtain b where
    b: "m_feature3DMap st' r = Some b" "f2d_feature3D st' q = Some b"
       "q \<in> set (f3d_features2D st' b)" "q \<in> set (features2D (fs ! j2))"
    unfolding e by blast
  from a(1) b(1) have ab: "b = a" by simp
  have g: "grows st st'"
    using estimatePoses_grows [OF assms(1), of localize calls preprocess] unfolding e .
  have old: "\<forall>a0. m_feature3DMap st r = Some a0 \<longrightarrow> a = a0"
    using grows_old [OF g] a(1) by auto
  have new: "m_feature3DMap st r = None \<longrightarrow>
      next_f3d st \<le> a \<and> (r < next_f3d st \<longrightarrow> f3d_point st' a = f3d_point st r)"
    using grows_new [OF g a(1)] by blast
  note cnt = grows_count [OF g]
  show ?thesis
  proof (intro exI [of _ a] conjI)
    show "m_feature3DMap st' r = Some a" by (rule a(1))
    show "f2d_feature3D st' p = Some a" by (rule a(2))
    show "f2d_feature3D st' q = Some a" using b(2) ab by simp
    show "p \<in> set (f3d_features2D st' a)" by (rule a(3))
    show "q \<in> set (f3d_features2D st' a)" using b(3) ab by simp
    show "p \<in> set (features2D (fs ! j1))" by (rule a(4))
    show "q \<in> set (features2D (fs ! j2))" by (rule b(4))
    show "\<forall>a0. m_feature3DMap st r = Some a0 \<longrightarrow> a = a0" by (rule old)
    show "m_feature3DMap st r = None \<longrightarrow>
      next_f3d st \<le> a \<and> (r < next_f3d st \<longrightarrow> f3d_point st' a = f3d_point st r)" by (rule new)
    show "next_f3d st' = next_f3d st + card (dom (m_feature3DMap st') - dom (m_feature3DMap st))"
      by (rule cnt)
  qed
qed

text \<open>Feature 3 of the first call and feature 7 of the third, which follows 26 features,
  are both matched with the reference point 0.\<close>

theorem feature3D_same_instance_witness:
  "f2d_feature3D (snd (estimatePoses ex_localize ex_calls False (initial 2 [(0, 0, 1)]))) 3
     = f2d_feature3D (snd (estimatePoses ex_localize ex_calls False (initial 2 [(0, 0, 1)]))) 33 \<and>
   f2d_feature3D (snd (estimatePoses ex_localize ex_calls False (initial 2 [(0, 0, 1)]))) 3
     = m_feature3DMap (snd (estimatePoses ex_localize ex_calls False (initial 2 [(0, 0, 1)]))) 0 \<and>
   m_feature3DMap (snd (estimatePoses ex_localize ex_calls False (initial 2 [(0, 0, 1)]))) 0 \<noteq> None \<and>
   {3, 33} \<subseteq> set (f3d_features2D (snd (estimatePoses ex_localize ex_calls False (initial 2 [(0, 0, 1)])))
            (the (m_feature3DMap (snd (estimatePoses ex_localize ex_calls False (initial 2 [(0, 0, 1)]))) 0))) \<and>
   f3d_point (snd (estimatePoses ex_localize ex_calls False (initial 2 [(0, 0, 1)])))
     (the (m_feature3DMap (snd (estimatePoses ex_localize ex_calls False (initial 2 [(0, 0, 1)]))) 0))
     = (0, 0, 1)"
proof -
  let ?st = "initial 2 [(0, 0, 1)]"
  let ?run = "estimatePoses ex_localize ex_calls False ?st"
  have ma: "mapAllocated ?st" by (simp add: mapAllocated_def initial_def)
  have c: "0 < length ex_calls" "ex_calls ! 0 = (Some (0, 0, 0), 0, 1)"
    "2 < length ex_calls" "ex_calls ! 2 = (Some (1, 0, 0), 0, 2)"
    by (simp_all add: ex_calls_def)
  have p: "3 = next_f2d (snd (estimatePoses ex_localize (take 0 ex_calls) False ?st)) + 3"
    by (simp add: initial_def)
  have "take 2 ex_calls = [(Some (0, 0, 0), 0, 1), (None, 1, 1)]"
    by (simp add: ex_calls_def numeral_2_eq_2)
  then have "next_f2d (snd (estimatePoses ex_localize (take 2 ex_calls) False ?st)) = 26"
    unfolding estimatePoses_next_f2d
    by (simp add: ex_localize_def initial_def)
  then have q: "33 = next_f2d (snd (estimatePoses ex_localize (take 2 ex_calls) False ?st)) + 7"
    by simp
  have i: "m_feature3DMap ?st 0 = None" "0 < next_f3d ?st" "f3d_point ?st 0 = (0, 0, 1)"
    by (simp_all add: initial_def)
  from feature3D_same_instance [OF ma c ex_matched ex_matched p q prod.collapse [symmetric]] i
  show ?thesis by auto
qed

section \<open>The frame-set manager\<close>

lemma set_posesOf:
  "set (posesOf fs) = {(cameraId f, p) | f p. f \<in> set fs \<and> camera f = Some p}"
  unfolding posesOf_def by (auto split: option.splits)

lemma set_sharedDisplacements:
  "set (sharedDisplacements centre prev cur) =
     {displacement centre pc pp | pc pp fc fp.
        fc \<in> set cur \<and> fp \<in> set prev \<and> cameraId fp = cameraId fc \<and>
        camera fc = Some pc \<and> camera fp = Some pp}"
proof -
  have "set (sharedDisplacements centre prev cur) =
      {displacement centre pc pp | pc pp i. (i, pc) \<in> set (posesOf cur) \<and> (i, pp) \<in> set (posesOf prev)}"
    unfolding sharedDisplacements_def by (auto split: if_splits) force
  also have "\<dots> = {displacement centre pc pp | pc pp fc fp.
        fc \<in> set cur \<and> fp \<in> set prev \<and> cameraId fp = cameraId fc \<and>
        camera fc = Some pc \<and> camera fp = Some pp}"
  proof (intro set_eqI iffI)
    fix d
    assume "d \<in> {displacement centre pc pp | pc pp i.
      (i, pc) \<in> set (posesOf cur) \<and> (i, pp) \<in> set (posesOf prev)}"
    then obtain pc pp i where d: "d = displacement centre pc pp"
      and c: "(i, pc) \<in> set (posesOf cur)" and p: "(i, pp) \<in> set (posesOf prev)"
      by blast
    from c obtain fc where "fc \<in> set cur" "camera fc = Some pc" "cameraId fc = i"
      unfolding set_posesOf by blast
    moreover from p obtain fp where "fp \<in> set prev" "camera fp = Some pp" "cameraId fp = i"
      unfolding set_posesOf by blast
    ultimately show "d \<in> {displacement centre pc pp | pc pp fc fp.
        fc \<in> set cur \<and> fp \<in> set prev \<and> cameraId fp = cameraId fc \<and>
        camera fc = Some pc \<and> camera fp = Some pp}"
      using d by blast
  next
    fix d
    assume "d \<in> {displacement centre pc pp | pc pp fc fp.
        fc \<in> set cur \<and> fp \<in> set prev \<and> cameraId fp = cameraId fc \<and>
        camera fc = Some pc \<and> camera fp = Some pp}"
    then obtain pc pp fc fp where d: "d = displacement centre pc pp"
      and f: "fc \<in> set cur" "fp \<in> set prev" "cameraId fp = cameraId fc"
        "camera fc = Some pc" "camera fp = Some pp"
      by blast
    from f(1,4) have "(cameraId fc, pc) \<in> set (posesOf cur)"
      unfolding set_posesOf by blast
    moreover from f(2,3,5) have "(cameraId fc, pp) \<in> set (posesOf prev)"
      unfolding set_posesOf by (metis (mono_tags, lifting) mem_Collect_eq)
    ultimately have "(cameraId fc, pc) \<in> set (posesOf cur)" "(cameraId fc, pp) \<in> set (posesOf prev)"
      by simp_all
    with d show "d \<in> {displacement centre pc pp | pc pp i.
      (i, pc) \<in> set (posesOf cur) \<and> (i, pp) \<in> set (posesOf prev)}"
      by blast
  qed
  finally show ?thesis .
qed

lemma storeCorrespondence_keeps:
  "m_framesets (storeCorrespondence c st) = m_framesets st"
  "m_cameras (storeCorrespondence c st) = m_cameras st"
  by (auto simp: storeCorrespondence_def Let_def split: option.splits)

lemma newFeatures_keeps:
  "m_framesets (newFeatures kps st) = m_framesets st"
  "m_cameras (newFeatures kps st) = m_cameras st"
  by (simp_all add: newFeatures_def Let_def)

lemma exec_keeps:
  "m_framesets (exec evs st) = m_framesets st \<and> m_cameras (exec evs st) = m_cameras st"
proof (induction evs arbitrary: st)
  case Nil
  then show ?case by simp
next
  case (Cons e evs)
  then show ?case
    by (cases e) (simp_all add: newFeatures_keeps storeCorrespondence_keeps)
qed

lemma estimateCameraPose_keeps:
  "m_framesets (snd (estimateCameraPose localize img ts frame preprocess st)) = m_framesets st"
  "m_cameras (snd (estimateCameraPose localize img ts frame preprocess st)) = m_cameras st"
  by (simp_all add: estimateCameraPose_exec Let_def exec_keeps newFeatures_keeps)

lemma estimateCameraPose_cameraId:
  "cameraId (fst (estimateCameraPose localize img ts frame preprocess st)) = cameraId frame"
  by (simp add: estimateCameraPose_def Let_def)

lemma localizeFrames_props:
  "localizeFrames localize images i ts preprocess st = (fs, st1) \<Longrightarrow>
   map cameraId fs = [i ..< i + length images] \<and>
   m_framesets st1 = m_framesets st \<and> m_cameras st1 = m_cameras st"
proof (induction images arbitrary: i st fs st1)
  case Nil
  then show ?case by simp
next
  case (Cons img images)
  obtain frame sta where e: "estimateCameraPose localize img ts (Frame_new\<lparr>cameraId := i\<rparr>) preprocess st
      = (frame, sta)"
    by (cases "estimateCameraPose localize img ts (Frame_new\<lparr>cameraId := i\<rparr>) preprocess st")
  obtain fs' stb where l: "localizeFrames localize images (Suc i) ts preprocess sta = (fs', stb)"
    by (cases "localizeFrames localize images (Suc i) ts preprocess sta")
  from Cons.prems e l have fs: "fs = frame # fs'" and st1: "st1 = stb"
    by simp_all
  from estimateCameraPose_cameraId [of localize img ts "Frame_new\<lparr>cameraId := i\<rparr>" preprocess st] e
  have c: "cameraId frame = i" by simp
  from estimateCameraPose_keeps [of localize img ts "Frame_new\<lparr>cameraId := i\<rparr>" preprocess st] e
  have k: "m_framesets sta = m_framesets st" "m_cameras sta = m_cameras st" by simp_all
  from Cons.IH [OF l] fs st1 c k show ?case
    by (simp add: upt_rec)
qed

lemma byCamera_ok:
  assumes "distinct (map cameraId fs)" and "\<forall>f \<in> set fs. cameraId f < length v"
  shows "\<exists>v'. byCamera fs v = Inr v' \<and> length v' = length v \<and>
           (\<forall>f \<in> set fs. v' ! cameraId f = Some f) \<and>
           (\<forall>i < length v. i \<notin> cameraId ` set fs \<longrightarrow> v' ! i = v ! i)"
  using assms
proof (induction fs arbitrary: v)
  case Nil
  then show ?case by simp
next
  case (Cons f fs)
  let ?v = "v[cameraId f := Some f]"
  from Cons.prems have d: "distinct (map cameraId fs)" and r: "\<forall>g \<in> set fs. cameraId g < length ?v"
    and nf: "cameraId f \<notin> cameraId ` set fs" and lf: "cameraId f < length v"
    by simp_all
  from Cons.IH [OF d r] obtain v' where
    v': "byCamera fs ?v = Inr v'" "length v' = length v"
      "\<forall>g \<in> set fs. v' ! cameraId g = Some g"
      "\<forall>i < length v. i \<notin> cameraId ` set fs \<longrightarrow> v' ! i = ?v ! i"
    by auto
  have "byCamera (f # fs) v = Inr v'"
    using lf v'(1) by (simp add: vset_def)
  moreover have "v' ! cameraId f = Some f"
    using v'(4) nf lf by simp
  moreover have "\<forall>i < length v. i \<notin> cameraId ` set (f # fs) \<longrightarrow> v' ! i = v ! i"
    using v'(4) by auto
  ultimately show ?case
    using v'(2,3) by auto
qed

lemma byCamera_None:
  assumes "distinct (map cameraId fs)" and "\<forall>f \<in> set fs. cameraId f < n"
  shows "\<exists>v. byCamera fs (replicate n None) = Inr v \<and> length v = n \<and>
           (\<forall>i < n. \<forall>f. v ! i = Some f \<longleftrightarrow> f \<in> set fs \<and> cameraId f = i)"
proof -
  from byCamera_ok [OF assms(1), of "replicate n None"] assms(2) obtain v where
    v: "byCamera fs (replicate n None) = Inr v" "length v = n"
      "\<forall>f \<in> set fs. v ! cameraId f = Some f"
      "\<forall>i < n. i \<notin> cameraId ` set fs \<longrightarrow> v ! i = None"
    by auto
  have "\<forall>i < n. \<forall>f. v ! i = Some f \<longleftrightarrow> f \<in> set fs \<and> cameraId f = i"
  proof (intro allI impI iffI)
    fix i f assume i: "i < n" and s: "v ! i = Some f"
    with v(4) have "i \<in> cameraId ` set fs" by auto
    then obtain g where g: "g \<in> set fs" "cameraId g = i" by auto
    with v(3) s have "g = f" by auto
    with g show "f \<in> set fs \<and> cameraId f = i" by simp
  next
    fix i f assume "i < n" and "f \<in> set fs \<and> cameraId f = i"
    with v(3) show "v ! i = Some f" by auto
  qed
  with v(1,2) show ?thesis by blast
qed

lemma keyFrameDistance_Min:
  assumes "\<forall>f. Some f \<in> set framePrev \<longrightarrow> camera f \<noteq> None"
    and "\<forall>f. Some f \<in> set frameCurr \<longrightarrow> camera f \<noteq> None"
  shows "keyFrameDistance centre framePrev frameCurr k0 =
           Inr (Min (insert k0 (set (pairDisplacements centre framePrev frameCurr))))"
  using assms
proof (induction centre framePrev frameCurr k0 rule: keyFrameDistance.induct)
  case (1 centre prev framePrev cur frameCurr keyFrameDist)
  from "1.prems" obtain pc pp where c: "camera cur = Some pc" "camera prev = Some pp"
    by force
  let ?d = "displacement centre pc pp"
  let ?S = "set (pairDisplacements centre framePrev frameCurr)"
  from "1.prems" have p: "\<forall>f. Some f \<in> set framePrev \<longrightarrow> camera f \<noteq> None"
    "\<forall>f. Some f \<in> set frameCurr \<longrightarrow> camera f \<noteq> None"
    by simp_all
  from "1.IH" [OF c refl p]
  have "keyFrameDistance centre framePrev frameCurr (if ?d < keyFrameDist then ?d else keyFrameDist)
      = Inr (Min (insert (if ?d < keyFrameDist then ?d else keyFrameDist) ?S))" .
  moreover have "Min (insert (if ?d < keyFrameDist then ?d else keyFrameDist) ?S)
      = Min (insert keyFrameDist (insert ?d ?S))"
  proof -
    have "Min (insert keyFrameDist (insert ?d ?S)) = Min (insert (min ?d keyFrameDist) ?S)"
      by (cases "?S = {}") (simp_all add: min.commute min.left_commute min.assoc)
    then show ?thesis by (simp add: min_def not_less)
  qed
  ultimately show ?case
    using c by simp
qed (auto)

lemma set_pairDisplacements_zip:
  "set (pairDisplacements centre framePrev frameCurr) =
     {displacement centre pc pp | pc pp fc fp.
        (Some fp, Some fc) \<in> set (zip framePrev frameCurr) \<and>
        camera fc = Some pc \<and> camera fp = Some pp}"
proof (induction centre framePrev frameCurr rule: pairDisplacements.induct)
  case (1 centre prev framePrev cur frameCurr)
  show ?case
  proof (cases "camera cur")
    case None
    with 1 show ?thesis by auto
  next
    case (Some pc)
    show ?thesis
    proof (cases "camera prev")
      case None
      with Some 1 show ?thesis by auto
    next
      case (Some pp)
      with \<open>camera cur = Some pc\<close> 1 show ?thesis by auto
    qed
  qed
qed auto

lemma set_pairDisplacements_shared:
  assumes p: "\<forall>i < n. \<forall>f. framePrev ! i = Some f \<longleftrightarrow> f \<in> set prev \<and> cameraId f = i"
    and c: "\<forall>i < n. \<forall>f. frameCurr ! i = Some f \<longleftrightarrow> f \<in> set cur \<and> cameraId f = i"
    and l: "length framePrev = n" "length frameCurr = n"
    and b: "\<forall>f \<in> set prev. cameraId f < n"
  shows "set (pairDisplacements centre framePrev frameCurr) = set (sharedDisplacements centre prev cur)"
proof -
  have "(Some fp, Some fc) \<in> set (zip framePrev frameCurr) \<longleftrightarrow>
        fc \<in> set cur \<and> fp \<in> set prev \<and> cameraId fp = cameraId fc" for fp fc
  proof
    assume "(Some fp, Some fc) \<in> set (zip framePrev frameCurr)"
    then obtain i where "i < n" "framePrev ! i = Some fp" "frameCurr ! i = Some fc"
      using l by (auto simp: set_zip)
    with p c show "fc \<in> set cur \<and> fp \<in> set prev \<and> cameraId fp = cameraId fc"
      by auto
  next
    assume a: "fc \<in> set cur \<and> fp \<in> set prev \<and> cameraId fp = cameraId fc"
    let ?i = "cameraId fp"
    from a b have i: "?i < n" by auto
    with a p c have "framePrev ! ?i = Some fp" "frameCurr ! ?i = Some fc"
      by auto
    with i l show "(Some fp, Some fc) \<in> set (zip framePrev frameCurr)"
      by (auto simp: set_zip intro!: exI [of _ ?i])
  qed
  then show ?thesis
    unfolding set_pairDisplacements_zip set_sharedDisplacements by auto
qed

lemma keyframeGate_decision:
  assumes ok: "framesetOK (m_cameras st) (last (m_framesets st))"
    and ne: "m_framesets st \<noteq> []"
    and ids: "distinct (map cameraId fs)" "\<forall>f \<in> set fs. cameraId f < m_cameras st"
    and two: "2 \<le> length (filter (\<lambda>f. camera f \<noteq> None) fs)"
  shows "keyframeGate centre fs ts st =
     (let frameset = \<lparr>frames = filter (\<lambda>f. camera f \<noteq> None) fs, timestamp = ts\<rparr>;
          keyFrameDist = Min (insert DBL_MAX
            (set (sharedDisplacements centre (frames (last (m_framesets st))) (frames frameset))))
      in if keyFrameDist \<noteq> DBL_MAX \<and> keyFrameDist > k_minKeyFrameDistance
         then Inr (st\<lparr>m_framesets := m_framesets st @ [frameset]\<rparr>)
         else Inr st)"
proof -
  let ?n = "m_cameras st"
  let ?prev = "frames (last (m_framesets st))"
  let ?cur = "filter (\<lambda>f. camera f \<noteq> None) fs"
  from ok have pd: "distinct (map cameraId ?prev)" and pb: "\<forall>f \<in> set ?prev. cameraId f < ?n"
    and pc: "\<forall>f \<in> set ?prev. camera f \<noteq> None"
    by (simp_all add: framesetOK_def)
  from ids have cd: "distinct (map cameraId ?cur)" and cb: "\<forall>f \<in> set ?cur. cameraId f < ?n"
    by (simp_all add: distinct_map_filter)
  from byCamera_None [OF pd pb] obtain vp where
    vp: "byCamera ?prev (replicate ?n None) = Inr vp" "length vp = ?n"
      "\<forall>i < ?n. \<forall>f. vp ! i = Some f \<longleftrightarrow> f \<in> set ?prev \<and> cameraId f = i"
    by blast
  from byCamera_None [OF cd cb] obtain vc where
    vc: "byCamera ?cur (replicate ?n None) = Inr vc" "length vc = ?n"
      "\<forall>i < ?n. \<forall>f. vc ! i = Some f \<longleftrightarrow> f \<in> set ?cur \<and> cameraId f = i"
    by blast
  have np: "\<forall>f. Some f \<in> set vp \<longrightarrow> camera f \<noteq> None"
    using vp(2,3) pc by (auto simp: in_set_conv_nth)
  have nc: "\<forall>f. Some f \<in> set vc \<longrightarrow> camera f \<noteq> None"
    using vc(2,3) by (auto simp: in_set_conv_nth)
  have "keyFrameDistance centre vp vc DBL_MAX
      = Inr (Min (insert DBL_MAX (set (sharedDisplacements centre ?prev ?cur))))"
    unfolding keyFrameDistance_Min [OF np nc]
      set_pairDisplacements_shared [OF vp(3) vc(3) vp(2) vc(2) pb] ..
  with vp(1) vc(1) ne two show ?thesis
    by (simp add: keyframeGate_def Let_def)
qed

lemma localizeFrames_ids:
  assumes "localizeFrames localize images 0 ts preprocess st = (fs, st1)"
  shows "distinct (map cameraId fs)" and "\<forall>f \<in> set fs. cameraId f < length images"
proof -
  from localizeFrames_props [OF assms] have m: "map cameraId fs = [0 ..< length images]"
    by simp
  then show "distinct (map cameraId fs)" by simp
  have "set (map cameraId fs) = {0 ..< length images}"
    unfolding m by simp
  then show "\<forall>f \<in> set fs. cameraId f < length images"
    by auto
qed

lemma localizeFrames_estimatePoses:
  "localizeFrames localize images i ts preprocess st =
     estimatePoses localize (map (\<lambda>(c, img). (img, c, ts)) (zip [i ..< i + length images] images))
       preprocess st"
proof (induction images arbitrary: i st)
  case Nil
  then show ?case by simp
next
  case (Cons img images)
  have "[i ..< i + length (img # images)] = i # [Suc i ..< Suc i + length images]"
    by (simp add: upt_rec)
  then show ?case
    by (simp add: Cons.IH split_def Let_def)
qed

lemma keyframeGate_few:
  "length (filter (\<lambda>f. camera f \<noteq> None) fs) < 2 \<Longrightarrow> keyframeGate centre fs ts st = Inr st"
  by (simp add: keyframeGate_def Let_def)

lemma keyframeGate_first:
  "2 \<le> length (filter (\<lambda>f. camera f \<noteq> None) fs) \<Longrightarrow> m_framesets st = [] \<Longrightarrow>
   keyframeGate centre fs ts st
     = Inr (st\<lparr>m_framesets := [\<lparr>frames = filter (\<lambda>f. camera f \<noteq> None) fs, timestamp = ts\<rparr>]\<rparr>)"
  by (simp add: keyframeGate_def Let_def)

lemma keyframeGate_list:
  assumes "keyframeGate centre fs ts st = Inr st'"
  shows "st' = st \<or>
         (st' = st\<lparr>m_framesets := m_framesets st @
                    [\<lparr>frames = filter (\<lambda>f. camera f \<noteq> None) fs, timestamp = ts\<rparr>]\<rparr> \<and>
          2 \<le> length (filter (\<lambda>f. camera f \<noteq> None) fs))"
  using assms
  by (auto simp: keyframeGate_def Let_def split: if_splits sum.splits)

text \<open>
  Claim C2, as amended. \<^verbatim>\<open>addFrameSet\<close> never appends a set with fewer than two frames:
  when fewer than two cameras are localised the call returns the state the
  localisation left, with \<open>m_framesets\<close> as it was; and whenever the call returns, the
  list is unchanged or longer by one set, which holds the localised frames and has at
  least two of them. (\<^verbatim>\<open>loadFrameSets\<close> makes no such check.)
\<close>

theorem addFrameSet_min_two_frames:
  assumes "localizeFrames localize images 0 ts preprocess st = (fs, st1)"
  shows "(length images = m_cameras st \<and> length (filter (\<lambda>f. camera f \<noteq> None) fs) < 2 \<longrightarrow>
            addFrameSet localize centre images ts preprocess st = Inr st1 \<and>
            m_framesets st1 = m_framesets st) \<and>
         (\<forall>st'. addFrameSet localize centre images ts preprocess st = Inr st' \<longrightarrow>
            m_framesets st' = m_framesets st \<or>
            (m_framesets st' = m_framesets st @
               [\<lparr>frames = filter (\<lambda>f. camera f \<noteq> None) fs, timestamp = ts\<rparr>] \<and>
             2 \<le> length (filter (\<lambda>f. camera f \<noteq> None) fs)))"
proof (intro conjI allI impI)
  assume a: "length images = m_cameras st \<and> length (filter (\<lambda>f. camera f \<noteq> None) fs) < 2"
  then show "addFrameSet localize centre images ts preprocess st = Inr st1"
    using assms by (simp add: addFrameSet_def keyframeGate_few)
  show "m_framesets st1 = m_framesets st"
    using localizeFrames_props [OF assms] by simp
next
  fix st'
  assume r: "addFrameSet localize centre images ts preprocess st = Inr st'"
  show "m_framesets st' = m_framesets st \<or>
            (m_framesets st' = m_framesets st @
               [\<lparr>frames = filter (\<lambda>f. camera f \<noteq> None) fs, timestamp = ts\<rparr>] \<and>
             2 \<le> length (filter (\<lambda>f. camera f \<noteq> None) fs))"
  proof (cases "length images = m_cameras st")
    case False
    with r show ?thesis by (simp add: addFrameSet_def)
  next
    case True
    with r assms have "keyframeGate centre fs ts st1 = Inr st'"
      by (simp add: addFrameSet_def)
    from keyframeGate_list [OF this] localizeFrames_props [OF assms]
    show ?thesis by auto
  qed
qed

lemma framesetOK_candidate:
  assumes "length images = m_cameras st"
    and "localizeFrames localize images 0 ts preprocess st = (fs, st1)"
  shows "framesetOK (m_cameras st) \<lparr>frames = filter (\<lambda>f. camera f \<noteq> None) fs, timestamp = ts\<rparr>"
  using localizeFrames_ids [OF assms(2)] assms(1)
  by (simp add: framesetOK_def distinct_map_filter)

lemma sentinel_decision:
  "(Min (insert DBL_MAX (set D)) \<noteq> DBL_MAX \<and> Min (insert DBL_MAX (set D)) > k)
     \<longleftrightarrow> ((\<exists>d \<in> set D. d < DBL_MAX) \<and> Min (set D) > k)"
proof (cases "\<exists>d \<in> set D. d < DBL_MAX")
  case True
  then obtain d where d: "d \<in> set D" "d < DBL_MAX" by blast
  then have ne: "set D \<noteq> {}" by auto
  from d have "Min (set D) \<le> d" by simp
  with d(2) have lt: "Min (set D) < DBL_MAX" by simp
  from ne have "Min (insert DBL_MAX (set D)) = min DBL_MAX (Min (set D))" by simp
  with lt have "Min (insert DBL_MAX (set D)) = Min (set D)" by (simp add: min_def)
  with lt True show ?thesis by simp
next
  case False
  then have "\<forall>d \<in> set D. DBL_MAX \<le> d" by auto
  then have "Min (insert DBL_MAX (set D)) = DBL_MAX"
    by (intro Min_eqI) auto
  with False show ?thesis by simp
qed

lemma addFrameSet_gate:
  assumes "length images = m_cameras st"
    and "localizeFrames localize images 0 ts preprocess st = (fs, st1)"
    and "frameset = \<lparr>frames = filter (\<lambda>f. camera f \<noteq> None) fs, timestamp = ts\<rparr>"
    and "2 \<le> length (frames frameset)"
    and "D = sharedDisplacements centre (frames (last (m_framesets st))) (frames frameset)"
    and "m_framesets st \<noteq> []" and "framesetOK (m_cameras st) (last (m_framesets st))"
  shows "addFrameSet localize centre images ts preprocess st
           = Inr (if (\<exists>d \<in> set D. d < DBL_MAX) \<and> Min (set D) > k_minKeyFrameDistance
                  then st1\<lparr>m_framesets := m_framesets st @ [frameset]\<rparr>
                  else st1)"
proof -
  note props = localizeFrames_props [OF assms(2)]
  have gate: "addFrameSet localize centre images ts preprocess st = keyframeGate centre fs ts st1"
    using assms(1,2) by (simp add: addFrameSet_def)
  from assms(6,7) props have ok: "framesetOK (m_cameras st1) (last (m_framesets st1))"
    and ne: "m_framesets st1 \<noteq> []"
    by simp_all
  from localizeFrames_ids [OF assms(2)] assms(1) props
  have ids: "distinct (map cameraId fs)" "\<forall>f \<in> set fs. cameraId f < m_cameras st1"
    by simp_all
  from assms(3,4) have two: "2 \<le> length (filter (\<lambda>f. camera f \<noteq> None) fs)"
    by simp
  have D: "sharedDisplacements centre (frames (last (m_framesets st1))) (frames frameset) = D"
    using assms(5) props by simp
  have fsd: "\<lparr>frames = filter (\<lambda>f. camera f \<noteq> None) fs, timestamp = ts\<rparr> = frameset"
    using assms(3) by simp
  have "keyframeGate centre fs ts st1 =
    (if Min (insert DBL_MAX (set D)) \<noteq> DBL_MAX \<and>
        Min (insert DBL_MAX (set D)) > k_minKeyFrameDistance
     then Inr (st1\<lparr>m_framesets := m_framesets st1 @ [frameset]\<rparr>)
     else Inr st1)"
    using keyframeGate_decision [OF ok ne ids two, of centre ts]
    unfolding Let_def fsd FrameSet.simps D .
  also have "\<dots> = (if (\<exists>d \<in> set D. d < DBL_MAX) \<and> Min (set D) > k_minKeyFrameDistance
     then Inr (st1\<lparr>m_framesets := m_framesets st1 @ [frameset]\<rparr>)
     else Inr st1)"
    unfolding sentinel_decision ..
  also have "\<dots> = Inr (if (\<exists>d \<in> set D. d < DBL_MAX) \<and> Min (set D) > k_minKeyFrameDistance
                   then st1\<lparr>m_framesets := m_framesets st @ [frameset]\<rparr>
                   else st1)"
    using props by simp
  finally show ?thesis unfolding gate .
qed

text \<open>
  Claim C4 (keyframe gate), as amended. For a candidate set of at least two localised
  frames: when the list is empty the set is appended; otherwise, with \<open>D\<close> the
  displacements of the cameras present in both the last accepted set and the
  candidate, the set is appended if and only if there is such a camera (with a
  displacement below \<^verbatim>\<open>DBL_MAX\<close>, which the loop uses for "no camera in common") and the
  minimum of \<open>D\<close> is greater than \<open>k_minKeyFrameDistance\<close>. Else the set is dropped: the
  call returns the state \<open>st1\<close> that the localisation left, in which the list of sets is
  the one of \<open>st\<close> and the features and the Feature3D map are as \<^verbatim>\<open>estimateCameraPose\<close>
  updated them. The last accepted set is well formed, as is every candidate, so every
  set that \<^verbatim>\<open>addFrameSet\<close> appended.
\<close>

theorem addFrameSet_keyframe_gate:
  assumes "length images = m_cameras st"
    and "localizeFrames localize images 0 ts preprocess st = (fs, st1)"
    and "frameset = \<lparr>frames = filter (\<lambda>f. camera f \<noteq> None) fs, timestamp = ts\<rparr>"
    and "2 \<le> length (frames frameset)"
    and "D = sharedDisplacements centre (frames (last (m_framesets st))) (frames frameset)"
  shows "m_framesets st1 = m_framesets st \<and> framesetOK (m_cameras st) frameset \<and>
         (m_framesets st = [] \<longrightarrow>
            addFrameSet localize centre images ts preprocess st
              = Inr (st1\<lparr>m_framesets := [frameset]\<rparr>)) \<and>
         (m_framesets st \<noteq> [] \<and> framesetOK (m_cameras st) (last (m_framesets st)) \<longrightarrow>
            addFrameSet localize centre images ts preprocess st
              = Inr (if (\<exists>d \<in> set D. d < DBL_MAX) \<and> Min (set D) > k_minKeyFrameDistance
                     then st1\<lparr>m_framesets := m_framesets st @ [frameset]\<rparr>
                     else st1))"
proof (intro conjI impI)
  note props = localizeFrames_props [OF assms(2)]
  show "m_framesets st1 = m_framesets st" using props by simp
  show "framesetOK (m_cameras st) frameset"
    unfolding assms(3) by (rule framesetOK_candidate [OF assms(1,2)])
  have gate: "addFrameSet localize centre images ts preprocess st = keyframeGate centre fs ts st1"
    using assms(1,2) by (simp add: addFrameSet_def)
  {
    assume "m_framesets st = []"
    with props have "m_framesets st1 = []" by simp
    with assms(3,4) keyframeGate_first [of fs st1 centre ts]
    show "addFrameSet localize centre images ts preprocess st = Inr (st1\<lparr>m_framesets := [frameset]\<rparr>)"
      unfolding gate by simp
  }
  {
    assume a: "m_framesets st \<noteq> [] \<and> framesetOK (m_cameras st) (last (m_framesets st))"
    then have "m_framesets st \<noteq> []" "framesetOK (m_cameras st) (last (m_framesets st))"
      by simp_all
    from addFrameSet_gate [OF assms this]
    show "addFrameSet localize centre images ts preprocess st
              = Inr (if (\<exists>d \<in> set D. d < DBL_MAX) \<and> Min (set D) > k_minKeyFrameDistance
                     then st1\<lparr>m_framesets := m_framesets st @ [frameset]\<rparr>
                     else st1)" .
  }
qed

lemma estimateCameraPose_camera:
  "camera (fst (estimateCameraPose localize img ts (Frame_new\<lparr>cameraId := i\<rparr>) preprocess st))
     = poseFound localize img i ts preprocess"
  by (simp add: estimateCameraPose_def poseFound_def Let_def Frame_new_def)

lemma posesOf_localizeFrames:
  "posesOf (fst (localizeFrames localize images i ts preprocess st)) =
     concat (map (\<lambda>(j, img). case poseFound localize img j ts preprocess of
                                 None \<Rightarrow> [] | Some p \<Rightarrow> [(j, p)])
                 (zip [i ..< i + length images] images))"
proof (induction images arbitrary: i st)
  case Nil
  then show ?case by (simp add: posesOf_def)
next
  case (Cons img images)
  let ?e = "estimateCameraPose localize img ts (Frame_new\<lparr>cameraId := i\<rparr>) preprocess st"
  have c: "cameraId (fst ?e) = i" "camera (fst ?e) = poseFound localize img i ts preprocess"
    by (simp_all add: estimateCameraPose_cameraId estimateCameraPose_camera)
  have "fst (localizeFrames localize (img # images) i ts preprocess st)
      = fst ?e # fst (localizeFrames localize images (Suc i) ts preprocess (snd ?e))"
    by (simp add: split_def Let_def)
  then have "posesOf (fst (localizeFrames localize (img # images) i ts preprocess st))
      = (case poseFound localize img i ts preprocess of None \<Rightarrow> [] | Some p \<Rightarrow> [(i, p)])
        @ posesOf (fst (localizeFrames localize images (Suc i) ts preprocess (snd ?e)))"
    by (simp add: posesOf_def c split: option.splits)
  also have "[i ..< i + length (img # images)] = i # [Suc i ..< Suc i + length images]"
    by (simp add: upt_rec)
  ultimately show ?case
    by (simp add: Cons.IH)
qed

lemma posesOf_filter: "posesOf (filter (\<lambda>f. camera f \<noteq> None) fs) = posesOf fs"
  by (induction fs) (auto simp: posesOf_def)

lemma length_posesOf: "length (filter (\<lambda>f. camera f \<noteq> None) fs) = length (posesOf fs)"
  by (induction fs) (auto simp: posesOf_def)

lemma cameraIds_posesOf: "map cameraId (filter (\<lambda>f. camera f \<noteq> None) fs) = map fst (posesOf fs)"
  by (induction fs) (auto simp: posesOf_def)

lemma sqrt_25: "sqrt 25 = 5"
  using real_sqrt_abs [of 5] by simp

lemma ex_poseFound:
  "poseFound ex_localize (Some t) i ts preprocess
     = Some \<lparr>timeStamp = ts, rotation = (1, 0, 0, 0), translation = t\<rparr>"
  "poseFound ex_localize None i ts preprocess = None"
  by (simp_all add: poseFound_def ex_localize_def k_minCorrespondences2D3D_def)

lemma ex_posesOf:
  "posesOf (fst (localizeFrames ex_localize [Some a, Some b] 0 ts preprocess st))
     = [(0, \<lparr>timeStamp = ts, rotation = (1, 0, 0, 0), translation = a\<rparr>),
        (1, \<lparr>timeStamp = ts, rotation = (1, 0, 0, 0), translation = b\<rparr>)]"
  "posesOf (fst (localizeFrames ex_localize [Some a, None] 0 ts preprocess st))
     = [(0, \<lparr>timeStamp = ts, rotation = (1, 0, 0, 0), translation = a\<rparr>)]"
  unfolding posesOf_localizeFrames by (simp_all add: ex_poseFound upt_rec)

lemma addFrameSet_first:
  assumes "length images = m_cameras st" and "m_framesets st = []"
    and "2 \<le> length (posesOf (fst (localizeFrames localize images 0 ts preprocess st)))"
  shows "addFrameSet localize centre images ts preprocess st =
     Inr ((snd (localizeFrames localize images 0 ts preprocess st))\<lparr>m_framesets :=
       [\<lparr>frames = filter (\<lambda>f. camera f \<noteq> None)
                   (fst (localizeFrames localize images 0 ts preprocess st)),
         timestamp = ts\<rparr>]\<rparr>)"
proof -
  let ?L = "localizeFrames localize images 0 ts preprocess st"
  have "m_framesets (snd ?L) = []"
    using localizeFrames_props [of localize images 0 ts preprocess st "fst ?L" "snd ?L"] assms(2)
    by simp
  moreover have "2 \<le> length (filter (\<lambda>f. camera f \<noteq> None) (fst ?L))"
    using assms(3) by (simp only: length_posesOf)
  ultimately have "keyframeGate centre (fst ?L) ts (snd ?L) =
      Inr ((snd ?L)\<lparr>m_framesets := [\<lparr>frames = filter (\<lambda>f. camera f \<noteq> None) (fst ?L), timestamp = ts\<rparr>]\<rparr>)"
    by (rule keyframeGate_first [rotated])
  with assms(1) show ?thesis
    by (simp add: addFrameSet_def split_def Let_def)
qed

lemma ex_initial: "m_cameras (initial 2 pts) = 2" "m_framesets (initial 2 pts) = []"
  by (simp_all add: initial_def)

lemma setsOf_Inr:
  "setsOf (Inr st) = Some (map (\<lambda>s. map cameraId (frames s)) (m_framesets st))"
  by (simp add: setsOf_def)

lemma ex_two_localized:
  "length (filter (\<lambda>f. camera f \<noteq> None)
     (fst (localizeFrames ex_localize [Some a, Some b] 0 ts preprocess st))) = 2"
  "map cameraId (filter (\<lambda>f. camera f \<noteq> None)
     (fst (localizeFrames ex_localize [Some a, Some b] 0 ts preprocess st))) = [0, 1]"
  by (simp_all only: length_posesOf cameraIds_posesOf ex_posesOf) simp_all

lemma ex_one_localized:
  "length (filter (\<lambda>f. camera f \<noteq> None)
     (fst (localizeFrames ex_localize [Some a, None] 0 ts preprocess st))) = 1"
  by (simp only: length_posesOf ex_posesOf) simp

text \<open>Two cameras: one image localised, then both.\<close>

theorem addFrameSet_min_two_frames_witness:
  "setsOf (addFrameSet ex_localize ex_centre [Some (0, 0, 0), None] 1 False (initial 2 [(0, 0, 0)]))
     = Some [] \<and>
   setsOf (addFrameSet ex_localize ex_centre [Some (0, 0, 0), Some (1, 0, 0)] 1 False
            (initial 2 [(0, 0, 0)])) = Some [[0, 1]]"
proof -
  let ?st = "initial 2 [(0, 0, 0)]"
  let ?one = "localizeFrames ex_localize [Some (0, 0, 0), None] 0 1 False ?st"
  let ?two = "localizeFrames ex_localize [Some (0, 0, 0), Some (1, 0, 0)] 0 1 False ?st"
  let ?c = "\<lambda>f. camera f \<noteq> None"
  have len: "length [Some (0 :: real, 0 :: real, 0 :: real), None] = m_cameras ?st"
    by (simp add: ex_initial)
  from addFrameSet_min_two_frames [where localize = ex_localize and st = ?st
      and images = "[Some (0, 0, 0), None]" and ts = 1 and preprocess = False
      and fs = "fst ?one" and ?st1.0 = "snd ?one" and centre = ex_centre, OF prod.collapse [symmetric]]
  have "length [Some (0 :: real, 0 :: real, 0 :: real), None] = m_cameras ?st \<and> length (filter ?c (fst ?one)) < 2 \<longrightarrow>
        addFrameSet ex_localize ex_centre [Some (0, 0, 0), None] 1 False ?st = Inr (snd ?one) \<and>
        m_framesets (snd ?one) = m_framesets ?st"
    by (rule conjunct1)
  with len ex_one_localized [of "(0, 0, 0)" 1 False ?st]
  have "addFrameSet ex_localize ex_centre [Some (0, 0, 0), None] 1 False ?st = Inr (snd ?one)"
    and "m_framesets (snd ?one) = []"
    by (simp_all only: ex_initial) simp_all
  then have a: "setsOf (addFrameSet ex_localize ex_centre [Some (0, 0, 0), None] 1 False ?st) = Some []"
    by (simp only: setsOf_Inr) simp
  have r: "addFrameSet ex_localize ex_centre [Some (0, 0, 0), Some (1, 0, 0)] 1 False ?st =
     Inr ((snd ?two)\<lparr>m_framesets := [\<lparr>frames = filter ?c (fst ?two), timestamp = 1\<rparr>]\<rparr>)"
    by (rule addFrameSet_first) (simp_all only: ex_initial ex_posesOf, simp_all)
  from addFrameSet_min_two_frames [where localize = ex_localize and st = ?st
      and images = "[Some (0, 0, 0), Some (1, 0, 0)]" and ts = 1 and preprocess = False
      and fs = "fst ?two" and ?st1.0 = "snd ?two" and centre = ex_centre, OF prod.collapse [symmetric]] r
  have "m_framesets ((snd ?two)\<lparr>m_framesets := [\<lparr>frames = filter ?c (fst ?two), timestamp = 1\<rparr>]\<rparr>)
          = m_framesets ?st \<or>
        m_framesets ((snd ?two)\<lparr>m_framesets := [\<lparr>frames = filter ?c (fst ?two), timestamp = 1\<rparr>]\<rparr>)
          = m_framesets ?st @ [\<lparr>frames = filter ?c (fst ?two), timestamp = 1\<rparr>] \<and>
        2 \<le> length (filter ?c (fst ?two))"
    by blast
  have "setsOf (addFrameSet ex_localize ex_centre [Some (0, 0, 0), Some (1, 0, 0)] 1 False ?st)
      = Some [[0, 1]]"
    unfolding r setsOf_Inr by (simp del: not_None_eq localizeFrames.simps add: ex_two_localized)
  with a show ?thesis by simp
qed

lemma less_max_word: "x \<noteq> - 1 \<Longrightarrow> x < (- 1 :: 64 word)"
  using word_n1_ge [of x] by (simp add: order_le_less)

lemma ex_graph_load:
  "loadFrameSets ex_graph (initial 2 []) =
     Inr ((initial 2 [])\<lparr>m_framesets :=
        [\<lparr>frames = [frameAt 0 1 (0, 0, 0)], timestamp = 1\<rparr>,
         \<lparr>frames = [frameAt 1 2 (0, 0, 0)], timestamp = 2\<rparr>]\<rparr>)"
  by (simp add: loadFrameSets_def ex_graph_def stampedSegments_def stampedFrame_def vat_def
      frameAt_def numeral_2_eq_2,
      subst mergeLoop.simps, simp add: less_max_word,
      subst mergeLoop.simps, simp add: less_max_word)

text \<open>
  Claim C2 as stated fails for \<^verbatim>\<open>loadFrameSets\<close>: on a graph where camera 0 has one frame
  at time 1 and camera 1 one frame at time 2, the list it builds has two sets of one
  frame each.
\<close>

theorem loadFrameSets_keeps_small_sets_counterexample:
  "setsOf (loadFrameSets ex_graph (initial 2 [])) = Some [[0], [1]] \<and>
   \<not> 2 \<le> length [0 :: nat]"
  unfolding ex_graph_load setsOf_Inr by (simp add: frameAt_def)

lemma ex_accepted_fields:
  "m_cameras ex_accepted = 2"
  "m_framesets ex_accepted =
     [\<lparr>frames = [frameAt 0 1 (0, 0, 0), frameAt 1 1 (1, 0, 0)], timestamp = 1\<rparr>]"
  by (simp_all add: ex_accepted_def initial_def)

lemma ex_accepted_last:
  "m_framesets ex_accepted \<noteq> []"
  "frames (last (m_framesets ex_accepted)) = [frameAt 0 1 (0, 0, 0), frameAt 1 1 (1, 0, 0)]"
  "framesetOK (m_cameras ex_accepted) (last (m_framesets ex_accepted))"
  by (simp_all add: ex_accepted_fields framesetOK_def frameAt_def)

lemma ex_prev_poses:
  "posesOf [frameAt 0 1 (0, 0, 0), frameAt 1 1 (1, 0, 0)] =
     [(0, \<lparr>timeStamp = 1, rotation = (1, 0, 0, 0), translation = (0, 0, 0)\<rparr>),
      (1, \<lparr>timeStamp = 1, rotation = (1, 0, 0, 0), translation = (1, 0, 0)\<rparr>)]"
  by (simp add: posesOf_def frameAt_def)

lemma ex_displacements:
  "sharedDisplacements ex_centre [frameAt 0 1 (0, 0, 0), frameAt 1 1 (1, 0, 0)]
     (filter (\<lambda>f. camera f \<noteq> None)
        (fst (localizeFrames ex_localize [Some (3, 4, 0), Some (4, 4, 0)] 0 2 False ex_accepted)))
     = [5, 5]"
  "sharedDisplacements ex_centre [frameAt 0 1 (0, 0, 0), frameAt 1 1 (1, 0, 0)]
     (filter (\<lambda>f. camera f \<noteq> None)
        (fst (localizeFrames ex_localize [Some (0, 0, 0), Some (1, 0, 0)] 0 2 False ex_accepted)))
     = [0, 0]"
  unfolding sharedDisplacements_def posesOf_filter ex_posesOf ex_prev_poses
  by (simp_all add: displacement_def ex_centre_def minus3_def norm3_def sqrt_25)

lemma ex_frames_select:
  "frames \<lparr>frames = fs, timestamp = ts\<rparr> = fs"
  by simp

text \<open>The first set; then a set 5 away from it, which is appended, and a set at the same
  place, which is dropped.\<close>

theorem addFrameSet_keyframe_gate_witness:
  "setsOf (addFrameSet ex_localize ex_centre [Some (0, 0, 0), Some (1, 0, 0)] 1 False
            (initial 2 [(0, 0, 0)])) = Some [[0, 1]] \<and>
   setsOf (addFrameSet ex_localize ex_centre [Some (3, 4, 0), Some (4, 4, 0)] 2 False ex_accepted)
     = Some [[0, 1], [0, 1]] \<and>
   setsOf (addFrameSet ex_localize ex_centre [Some (0, 0, 0), Some (1, 0, 0)] 2 False ex_accepted)
     = Some [[0, 1]]"
proof -
  let ?st = "initial 2 [(0, 0, 0)]"
  let ?c = "\<lambda>f. camera f \<noteq> None"
  let ?first = "localizeFrames ex_localize [Some (0, 0, 0), Some (1, 0, 0)] 0 1 False ?st"
  let ?far = "localizeFrames ex_localize [Some (3, 4, 0), Some (4, 4, 0)] 0 2 False ex_accepted"
  let ?near = "localizeFrames ex_localize [Some (0, 0, 0), Some (1, 0, 0)] 0 2 False ex_accepted"
  have len: "length [Some (a :: vec3), Some b] = m_cameras ?st"
    "length [Some (a :: vec3), Some b] = m_cameras ex_accepted" for a b
    by (simp_all add: ex_initial ex_accepted_fields)
  have two: "2 \<le> length (frames \<lparr>frames = filter ?c
      (fst (localizeFrames ex_localize [Some a, Some b] 0 ts False st)), timestamp = ts\<rparr>)"
    for a b ts st
    unfolding ex_frames_select ex_two_localized by simp
  from addFrameSet_keyframe_gate [where localize = ex_localize and st = ?st
        and images = "[Some (0, 0, 0), Some (1, 0, 0)]" and ts = 1 and preprocess = False
        and fs = "fst ?first" and ?st1.0 = "snd ?first" and centre = ex_centre,
        OF len(1) prod.collapse [symmetric] refl two refl]
  have "addFrameSet ex_localize ex_centre [Some (0, 0, 0), Some (1, 0, 0)] 1 False ?st
      = Inr ((snd ?first)\<lparr>m_framesets := [\<lparr>frames = filter ?c (fst ?first), timestamp = 1\<rparr>]\<rparr>)"
    by (simp only: ex_initial)
  then have a: "setsOf (addFrameSet ex_localize ex_centre [Some (0, 0, 0), Some (1, 0, 0)] 1 False ?st)
      = Some [[0, 1]]"
    by (simp del: not_None_eq localizeFrames.simps add: setsOf_Inr ex_two_localized)
  have bound: "(5 :: real) < DBL_MAX" "(0 :: real) < DBL_MAX"
    by (simp_all add: DBL_MAX_def)
  from addFrameSet_keyframe_gate [where localize = ex_localize and st = ex_accepted
        and images = "[Some (3, 4, 0), Some (4, 4, 0)]" and ts = 2 and preprocess = False
        and fs = "fst ?far" and ?st1.0 = "snd ?far" and centre = ex_centre,
        OF len(2) prod.collapse [symmetric] refl two refl]
  have "addFrameSet ex_localize ex_centre [Some (3, 4, 0), Some (4, 4, 0)] 2 False ex_accepted
      = Inr ((snd ?far)\<lparr>m_framesets := m_framesets ex_accepted @
               [\<lparr>frames = filter ?c (fst ?far), timestamp = 2\<rparr>]\<rparr>)"
    unfolding ex_frames_select ex_accepted_last(2) ex_displacements
    using ex_accepted_last(1,3) bound(1)
    by (simp add: k_minKeyFrameDistance_def)
  then have b: "setsOf (addFrameSet ex_localize ex_centre [Some (3, 4, 0), Some (4, 4, 0)] 2 False ex_accepted)
      = Some [[0, 1], [0, 1]]"
    by (simp del: not_None_eq localizeFrames.simps
        add: setsOf_Inr ex_two_localized ex_accepted_fields frameAt_def)
  from addFrameSet_keyframe_gate [where localize = ex_localize and st = ex_accepted
        and images = "[Some (0, 0, 0), Some (1, 0, 0)]" and ts = 2 and preprocess = False
        and fs = "fst ?near" and ?st1.0 = "snd ?near" and centre = ex_centre,
        OF len(2) prod.collapse [symmetric] refl two refl]
  have "addFrameSet ex_localize ex_centre [Some (0, 0, 0), Some (1, 0, 0)] 2 False ex_accepted
      = Inr (snd ?near)"
    unfolding ex_frames_select ex_accepted_last(2) ex_displacements
    using ex_accepted_last(1,3) bound(2)
    by (simp add: k_minKeyFrameDistance_def)
  moreover have "m_framesets (snd ?near) = m_framesets ex_accepted"
    using localizeFrames_props [OF prod.collapse [symmetric], of ex_localize
        "[Some (0, 0, 0), Some (1, 0, 0)]" 0 2 False ex_accepted]
    by (simp del: localizeFrames.simps)
  ultimately have c: "setsOf (addFrameSet ex_localize ex_centre [Some (0, 0, 0), Some (1, 0, 0)] 2 False ex_accepted)
      = Some [[0, 1]]"
    by (simp del: not_None_eq localizeFrames.simps add: setsOf_Inr ex_accepted_fields frameAt_def)
  from a b c show ?thesis by simp
qed

text \<open>
  Claim C4 as stated fails in its last words, "dropped without state change": the call
  on \<open>ex_accepted\<close> with a set at the place of the last accepted one is dropped, the list
  of sets is as before, and the state returned is not \<open>ex_accepted\<close>: the Feature3D map,
  empty before, holds an object for the reference point 0.
\<close>

theorem addFrameSet_dropped_set_counterexample:
  "setsOf (addFrameSet ex_localize ex_centre [Some (0, 0, 0), Some (1, 0, 0)] 2 False ex_accepted)
     = setsOf (Inr ex_accepted) \<and>
   addFrameSet ex_localize ex_centre [Some (0, 0, 0), Some (1, 0, 0)] 2 False ex_accepted
     \<noteq> Inr ex_accepted \<and>
   feature3DOf (Inr ex_accepted) 0 = None \<and>
   feature3DOf (addFrameSet ex_localize ex_centre [Some (0, 0, 0), Some (1, 0, 0)] 2 False ex_accepted) 0
     \<noteq> None"
proof -
  let ?c = "\<lambda>f. camera f \<noteq> None"
  let ?images = "[Some (0 :: real, 0 :: real, 0 :: real), Some (1, 0, 0)]"
  let ?near = "localizeFrames ex_localize ?images 0 2 False ex_accepted"
  let ?calls = "[(Some (0 :: real, 0 :: real, 0 :: real), 0 :: nat, 2 :: 64 word), (Some (1, 0, 0), 1, 2)]"
  have len: "length ?images = m_cameras ex_accepted"
    by (simp add: ex_accepted_fields)
  have two: "2 \<le> length (frames \<lparr>frames = filter ?c (fst ?near), timestamp = 2\<rparr>)"
    unfolding ex_frames_select ex_two_localized by simp
  from addFrameSet_gate [where localize = ex_localize and st = ex_accepted
        and images = ?images and ts = 2 and preprocess = False
        and fs = "fst ?near" and ?st1.0 = "snd ?near" and centre = ex_centre,
        OF len prod.collapse [symmetric] refl two refl ex_accepted_last(1,3)]
  have res: "addFrameSet ex_localize ex_centre ?images 2 False ex_accepted = Inr (snd ?near)"
    unfolding ex_frames_select ex_accepted_last(2) ex_displacements
    by (simp add: k_minKeyFrameDistance_def)
  have sets: "m_framesets (snd ?near) = m_framesets ex_accepted"
    using localizeFrames_props [OF prod.collapse [symmetric], of ex_localize ?images 0 2 False
        ex_accepted]
    by (simp del: localizeFrames.simps)
  have e: "m_feature3DMap ex_accepted 0 = None"
    by (simp add: ex_accepted_def initial_def)
  have ma: "mapAllocated ex_accepted"
    by (simp add: mapAllocated_def ex_accepted_def initial_def)
  have run: "snd ?near = snd (estimatePoses ex_localize ?calls False ex_accepted)"
    unfolding localizeFrames_estimatePoses by (simp add: upt_rec)
  from estimatePoses_attached [where calls = ?calls and j = 0 and i = 0 and localize = ex_localize
      and preprocess = False, OF ma _ _ ex_matched refl]
  have m: "m_feature3DMap (snd ?near) 0 \<noteq> None"
    unfolding run by auto
  with e have "snd ?near \<noteq> ex_accepted" by auto
  with res sets e m show ?thesis
    by (simp del: localizeFrames.simps add: setsOf_def feature3DOf_def)
qed

section \<open>The feature matcher\<close>

lemma those_map_Some: "those (map (\<lambda>x. Some (f x)) xs) = Some (map f xs)"
  by (induction xs) simp_all

lemma buildDescriptorMat_Nil:
  "buildDescriptorMat fs [] =
     (case fs of [] \<Rightarrow> Inl OutOfRange
      | f0 # _ \<Rightarrow> Inr (\<lparr>mrows = map ddata fs, mcols = dcols f0, mtype = dtype f0\<rparr>, [0 ..< length fs]))"
proof (cases fs)
  case Nil
  then show ?thesis by (simp add: buildDescriptorMat_def vat_def)
next
  case (Cons f0 fs')
  have "map (\<lambda>i. case vat fs i of Inl e \<Rightarrow> None | Inr f \<Rightarrow> Some (ddata f)) [0 ..< length fs]
          = map (\<lambda>i. Some (ddata (fs ! i))) [0 ..< length fs]"
    by (simp add: vat_def)
  also have "\<dots> = map (\<lambda>f. Some (ddata f)) (map (\<lambda>i. fs ! i) [0 ..< length fs])"
    by simp
  also have "\<dots> = map (\<lambda>f. Some (ddata f)) fs"
    by (simp only: map_nth)
  finally have "those (map (\<lambda>i. case vat fs i of Inl e \<Rightarrow> None | Inr f \<Rightarrow> Some (ddata f)) [0 ..< length fs])
        = Some (map ddata fs)"
    by (simp only: those_map_Some)
  with Cons show ?thesis
    by (simp add: buildDescriptorMat_def vat_def)
qed

lemma buildDescriptorMat_indices:
  "buildDescriptorMat fs [] = Inr (M, is) \<Longrightarrow> is = [0 ..< length fs]"
  by (simp add: buildDescriptorMat_Nil split: list.splits)

lemma vat_int_upt:
  "vat_int [0 ..< n] i = Inr q \<Longrightarrow> int q = i"
  by (auto simp: vat_int_def split: if_splits)

lemma crossed_Cons:
  "crossed fs rv qi ti m \<Longrightarrow> crossed (f # fs) rv qi ti m"
  unfolding crossed_def by (metis list.set_intros(2))

lemma crossCheck_sound:
  "crossCheck fwdMatches revMatches qi ti acc = Inr ms \<Longrightarrow> m \<in> set ms \<Longrightarrow>
   m \<in> set acc \<or> crossed fwdMatches revMatches qi ti m"
proof (induction fwdMatches revMatches qi ti acc rule: crossCheck.induct)
  case (1 revMatches queryIndices trainIndices matches)
  then show ?case by simp
next
  case (2 fwdMatches revMatches queryIndices trainIndices matches)
  then show ?case by (auto intro: crossed_Cons)
next
  case (3 fwdMatch fr fwdMatches revMatches queryIndices trainIndices matches)
  show ?case
  proof (cases "vat_int revMatches (trainIdx fwdMatch)")
    case (Inl e)
    with 3 show ?thesis by simp
  next
    case (Inr row)
    show ?thesis
    proof (cases row)
      case Nil
      with 3 Inr show ?thesis by (auto intro: crossed_Cons)
    next
      case (Cons revMatch rr)
      show ?thesis
      proof (cases "queryIdx fwdMatch = trainIdx revMatch \<and> trainIdx fwdMatch = queryIdx revMatch")
        case False
        with 3 Inr Cons show ?thesis by (auto intro: crossed_Cons)
      next
        case True
        from "3.prems"(1) Inr Cons True obtain q t where
          q: "vat_int queryIndices (queryIdx fwdMatch) = Inr q" and
          t: "vat_int trainIndices (queryIdx revMatch) = Inr t" and
          rec: "crossCheck fwdMatches revMatches queryIndices trainIndices
                  (matches @ [DMatch_default\<lparr>queryIdx := int q, trainIdx := int t\<rparr>]) = Inr ms"
          by (auto split: sum.splits)
        from "3.IH"(2)[OF Inr Cons True q t rec "3.prems"(2)]
        consider "m \<in> set matches" | "m = DMatch_default\<lparr>queryIdx := int q, trainIdx := int t\<rparr>"
          | "crossed fwdMatches revMatches queryIndices trainIndices m"
          by auto
        then show ?thesis
        proof cases
          case 1 then show ?thesis by simp
        next
          case 2
          have "crossed ((fwdMatch # fr) # fwdMatches) revMatches queryIndices trainIndices m"
            unfolding crossed_def using Inr Cons True q t 2 by (metis list.set_intros(1))
          then show ?thesis by simp
        next
          case 3 then show ?thesis by (simp add: crossed_Cons)
        qed
      qed
    qed
  qed
qed

lemma fless_not_fgeq: "fless r k \<Longrightarrow> \<not> fgeq r k"
  by (cases r) simp_all

lemma ratioTest_cases:
  "ratioTest row = [] \<or>
   (ratioTest row = [row ! 0] \<and> 2 \<le> length row \<and>
    fless (distanceRatio row) k_maxDistanceRatio)"
  by (simp add: ratioTest_def)

lemma ratioTest_Cons:
  assumes "ratioTest row = c # cs"
  shows "c = row ! 0" and "cs = []" and "2 \<le> length row"
    and "fless (distanceRatio row) k_maxDistanceRatio"
  using assms ratioTest_cases [of row] by auto

lemma matchFeatures_unfold:
  assumes "buildDescriptorMat queryFeatures [] = Inr (queryDtor, qi)"
    and "buildDescriptorMat trainFeatures [] = Inr (trainDtor, ti)"
  shows "matchFeatures knnMatch queryFeatures trainFeatures =
     (if mcols queryDtor \<noteq> mcols trainDtor \<or> mtype queryDtor \<noteq> mtype trainDtor then Inr []
      else crossCheck (map ratioTest (knnMatch queryDtor trainDtor 2))
             (map ratioTest (knnMatch trainDtor queryDtor 2))
             [0 ..< length queryFeatures] [0 ..< length trainFeatures] [])"
proof -
  have "qi = [0 ..< length queryFeatures]" "ti = [0 ..< length trainFeatures]"
    using assms by (simp_all add: buildDescriptorMat_indices)
  with assms show ?thesis
    by (simp add: matchFeatures_def Let_def)
qed

lemma matchFeatures_crossed:
  assumes "buildDescriptorMat queryFeatures [] = Inr (queryDtor, qi)"
    and "buildDescriptorMat trainFeatures [] = Inr (trainDtor, ti)"
    and "matchFeatures knnMatch queryFeatures trainFeatures = Inr matches"
    and "m \<in> set matches"
  shows "\<exists>i fwdMatch revMatch.
           i < length (knnMatch queryDtor trainDtor 2) \<and>
           ratioTest (knnMatch queryDtor trainDtor 2 ! i) = [fwdMatch] \<and>
           0 \<le> trainIdx fwdMatch \<and> nat (trainIdx fwdMatch) < length (knnMatch trainDtor queryDtor 2) \<and>
           ratioTest (knnMatch trainDtor queryDtor 2 ! nat (trainIdx fwdMatch)) = [revMatch] \<and>
           queryIdx fwdMatch = trainIdx revMatch \<and> trainIdx fwdMatch = queryIdx revMatch \<and>
           queryIdx m = queryIdx fwdMatch \<and> trainIdx m = trainIdx fwdMatch"
proof -
  let ?fwd = "map ratioTest (knnMatch queryDtor trainDtor 2)"
  let ?rev = "map ratioTest (knnMatch trainDtor queryDtor 2)"
  let ?qi = "[0 ..< length queryFeatures]" and ?ti = "[0 ..< length trainFeatures]"
  have run: "crossCheck ?fwd ?rev ?qi ?ti [] = Inr matches"
    using assms(3,4) matchFeatures_unfold [OF assms(1,2), of knnMatch]
    by (auto split: if_splits)
  from crossCheck_sound [OF run assms(4)]
  have "crossed ?fwd ?rev ?qi ?ti m" by simp
  then obtain fwdMatch fr revMatch rr q t where
    f: "fwdMatch # fr \<in> set ?fwd" and
    r: "vat_int ?rev (trainIdx fwdMatch) = Inr (revMatch # rr)" and
    x: "queryIdx fwdMatch = trainIdx revMatch" "trainIdx fwdMatch = queryIdx revMatch" and
    q: "vat_int ?qi (queryIdx fwdMatch) = Inr q" and
    t: "vat_int ?ti (queryIdx revMatch) = Inr t" and
    m: "m = DMatch_default\<lparr>queryIdx := int q, trainIdx := int t\<rparr>"
    unfolding crossed_def by blast
  from f obtain i where i: "i < length (knnMatch queryDtor trainDtor 2)"
    and fi: "ratioTest (knnMatch queryDtor trainDtor 2 ! i) = fwdMatch # fr"
    by (auto simp: in_set_conv_nth)
  from ratioTest_Cons(2) [OF fi] fi
  have fi': "ratioTest (knnMatch queryDtor trainDtor 2 ! i) = [fwdMatch]" by simp
  from r have rng: "0 \<le> trainIdx fwdMatch"
      "nat (trainIdx fwdMatch) < length (knnMatch trainDtor queryDtor 2)"
    and ri: "ratioTest (knnMatch trainDtor queryDtor 2 ! nat (trainIdx fwdMatch)) = revMatch # rr"
    by (auto simp: vat_int_def split: if_splits)
  from ratioTest_Cons(2) [OF ri] ri
  have ri': "ratioTest (knnMatch trainDtor queryDtor 2 ! nat (trainIdx fwdMatch)) = [revMatch]"
    by simp
  have "queryIdx m = queryIdx fwdMatch" "trainIdx m = trainIdx fwdMatch"
    using m vat_int_upt [OF q] vat_int_upt [OF t] x by simp_all
  with i fi' rng ri' x show ?thesis by blast
qed

text \<open>
  Claim C7 (cross-check symmetry). Every match \<open>(i, j)\<close> that \<open>matchFeatures\<close> returns is
  mutually best: the ratio-passing nearest neighbour of query descriptor \<open>i\<close> among the
  train descriptors is \<open>j\<close>, and the ratio-passing nearest neighbour of train descriptor
  \<open>j\<close> among the query descriptors is \<open>i\<close>. The matcher is any function that indexes its
  forward rows by the query descriptor.
\<close>

theorem matchFeatures_mutually_best:
  assumes "buildDescriptorMat queryFeatures [] = Inr (queryDtor, qi)"
    and "buildDescriptorMat trainFeatures [] = Inr (trainDtor, ti)"
    and "rowsIndexed (knnMatch queryDtor trainDtor 2)"
    and "matchFeatures knnMatch queryFeatures trainFeatures = Inr matches"
    and "m \<in> set matches"
  shows "bestMatch (knnMatch queryDtor trainDtor 2) (queryIdx m) = Some (trainIdx m) \<and>
         bestMatch (knnMatch trainDtor queryDtor 2) (trainIdx m) = Some (queryIdx m)"
proof -
  from matchFeatures_crossed [OF assms(1,2,4,5)]
  obtain i fwdMatch revMatch where
    i: "i < length (knnMatch queryDtor trainDtor 2)" and
    fi: "ratioTest (knnMatch queryDtor trainDtor 2 ! i) = [fwdMatch]" and
    rng: "0 \<le> trainIdx fwdMatch"
      "nat (trainIdx fwdMatch) < length (knnMatch trainDtor queryDtor 2)" and
    ri: "ratioTest (knnMatch trainDtor queryDtor 2 ! nat (trainIdx fwdMatch)) = [revMatch]" and
    x: "queryIdx fwdMatch = trainIdx revMatch" "trainIdx fwdMatch = queryIdx revMatch" and
    m: "queryIdx m = queryIdx fwdMatch" "trainIdx m = trainIdx fwdMatch"
    by blast
  have "fwdMatch = knnMatch queryDtor trainDtor 2 ! i ! 0"
    "2 \<le> length (knnMatch queryDtor trainDtor 2 ! i)"
    using ratioTest_Cons(1,3) [of "knnMatch queryDtor trainDtor 2 ! i" fwdMatch "[]"] fi
    by simp_all
  then have "fwdMatch \<in> set (knnMatch queryDtor trainDtor 2 ! i)"
    by (auto intro: nth_mem)
  with assms(3) i have qi: "queryIdx fwdMatch = int i"
    by (simp add: rowsIndexed_def)
  have "bestMatch (knnMatch queryDtor trainDtor 2) (queryIdx m) = Some (trainIdx m)"
    using i fi qi m by (simp add: bestMatch_def vat_int_def)
  moreover have "bestMatch (knnMatch trainDtor queryDtor 2) (trainIdx m) = Some (queryIdx m)"
    using rng ri x m by (simp add: bestMatch_def vat_int_def)
  ultimately show ?thesis by simp
qed

lemma ex_build:
  "buildDescriptorMat ex_query [] = Inr (ex_queryDtor, [0, 1])"
  "buildDescriptorMat ex_train [] = Inr (ex_trainDtor, [0, 1])"
  by (simp_all add: buildDescriptorMat_Nil ex_query_def ex_train_def descr_def
      ex_queryDtor_def ex_trainDtor_def upt_rec)

lemma ex_tables:
  "tableMatcher ex_queryDtor ex_fwd ex_rev ex_queryDtor ex_trainDtor 2 = ex_fwd"
  "tableMatcher ex_queryDtor ex_fwd ex_rev ex_trainDtor ex_queryDtor 2 = ex_rev"
  by (simp_all add: tableMatcher_def ex_fwd_def ex_rev_def ex_queryDtor_def ex_trainDtor_def
      numeral_2_eq_2)

lemma binadeFrom_eq:
  "2 powi e \<le> x \<Longrightarrow> x < 2 powi (e + 1) \<Longrightarrow> - 126 \<le> e \<Longrightarrow> e \<le> int n - 126 \<Longrightarrow>
   binadeFrom n x = e"
proof (induction n)
  case 0
  then show ?case by simp
next
  case (Suc n)
  show ?case
  proof (cases "e = int n - 125")
    case True
    with Suc.prems show ?thesis by simp
  next
    case False
    with Suc.prems have le: "e \<le> int n - 126" by simp
    then have "e + 1 \<le> int n - 125" by simp
    then have "(2::real) powi (e + 1) \<le> 2 powi (int n - 125)"
      by (intro power_int_increasing) simp_all
    with Suc.prems(2) have "\<not> 2 powi (int n - 125) \<le> x" by simp
    with Suc.IH [OF Suc.prems(1,2,3) le] show ?thesis by simp
  qed
qed

lemma binade_eq:
  "2 powi e \<le> \<bar>x\<bar> \<Longrightarrow> \<bar>x\<bar> < 2 powi (e + 1) \<Longrightarrow> - 126 \<le> e \<Longrightarrow> e \<le> 127 \<Longrightarrow> binade x = e"
  unfolding binade_def by (rule binadeFrom_eq) simp_all

lemma binadeFrom_ge:
  "2 powi e \<le> x \<Longrightarrow> - 126 \<le> e \<Longrightarrow> e \<le> int n - 126 \<Longrightarrow> e \<le> binadeFrom n x"
proof (induction n)
  case 0
  then show ?case by simp
next
  case (Suc n)
  show ?case
  proof (cases "2 powi (int n - 125) \<le> x")
    case True
    with Suc.prems show ?thesis by simp
  next
    case False
    with Suc.prems(1) have "e \<noteq> int n - 125" by auto
    with Suc.prems have "e \<le> int n - 126" by simp
    from Suc.IH [OF Suc.prems(1,2) this] False show ?thesis by simp
  qed
qed

lemma binadeFrom_le:
  "2 powi (- 126) \<le> x \<Longrightarrow> 2 powi (binadeFrom n x) \<le> x"
  by (induction n) simp_all

lemma roundHalfEven_floor: "\<lfloor>x\<rfloor> \<le> roundHalfEven x"
  by (simp add: roundHalfEven_def Let_def)

lemma roundf_threshold:
  assumes "k_maxDistanceRatio \<le> x"
  shows "\<not> fless (roundf x) k_maxDistanceRatio"
proof -
  let ?b = "binade x" and ?k = "k_maxDistanceRatio"
  let ?Q = "(2::real) powi (?b - 23)"
  let ?y = "of_int (roundHalfEven (x / ?Q)) * ?Q"
  have k: "?k = 11744051 * 2 powi (- 24)" "1 / 2 \<le> ?k" "?k \<le> 1"
    by (simp_all add: k_maxDistanceRatio_def power_int_minus)
  with assms have x: "1 / 2 \<le> x" "\<bar>x\<bar> = x" by simp_all
  have Q: "0 < ?Q" by simp
  have "(2::real) powi (- 1) \<le> \<bar>x\<bar>" using x by (simp add: power_int_minus)
  then have b: "- 1 \<le> ?b"
    unfolding binade_def by (rule binadeFrom_ge) simp_all
  have "(2::real) powi (- 126) \<le> 2 powi (- 1)"
    by (intro power_int_increasing) simp_all
  with x have "2 powi (- 126) \<le> \<bar>x\<bar>" by (simp add: power_int_minus)
  then have bx: "2 powi ?b \<le> x"
    unfolding binade_def using binadeFrom_le [of "\<bar>x\<bar>" 253] x(2) by simp
  have fl: "of_int \<lfloor>x / ?Q\<rfloor> * ?Q \<le> ?y"
    using roundHalfEven_floor [of "x / ?Q"] Q by (simp add: mult_right_mono)
  have "?k \<le> of_int \<lfloor>x / ?Q\<rfloor> * ?Q"
  proof (cases "?b = - 1")
    case True
    then have Qv: "?Q = 2 powi (- 24)" by simp
    have "(11744051::real) \<le> x / 2 powi (- 24)"
      using assms k(1) by (simp add: power_int_minus field_simps)
    then have "(11744051::int) \<le> \<lfloor>x / 2 powi (- 24)\<rfloor>"
      by (simp add: le_floor_iff)
    then have "(11744051::real) \<le> of_int \<lfloor>x / 2 powi (- 24)\<rfloor>"
      by linarith
    then show ?thesis unfolding Qv k(1) by (simp add: mult_right_mono)
  next
    case False
    with b have b0: "0 \<le> ?b" by simp
    have "x / ?Q \<ge> 2 powi ?b / ?Q" using bx Q by (simp add: divide_right_mono)
    also have "2 powi ?b / ?Q = (2::real) powi 23"
      by (simp add: power_int_diff)
    finally have "(2::real) ^ 23 \<le> x / ?Q" by simp
    then have "(2::int) ^ 23 \<le> \<lfloor>x / ?Q\<rfloor>"
      by (simp add: le_floor_iff)
    then have "(2::real) ^ 23 \<le> of_int \<lfloor>x / ?Q\<rfloor>"
      by (metis of_int_le_iff of_int_numeral of_int_power)
    then have "2 ^ 23 * ?Q \<le> of_int \<lfloor>x / ?Q\<rfloor> * ?Q"
      using Q by (simp add: mult_right_mono)
    moreover have "2 ^ 23 * ?Q = 2 powi ?b"
      by (simp add: power_int_diff)
    moreover have "(1::real) \<le> 2 powi ?b"
      using b0 by (simp add: one_le_power_int)
    ultimately show ?thesis using k(3) by linarith
  qed
  with fl have y: "?k \<le> ?y" by linarith
  then have "\<not> ?y < - FLT_MAX" using k(2) by (simp add: FLT_MAX_def)
  with y show ?thesis
    by (simp add: roundf_def Let_def)
qed

lemma distanceRatio_exact:
  assumes "fless (distanceRatio row) k_maxDistanceRatio" and "distance (row ! 1) \<noteq> 0"
  shows "distance (row ! 0) / distance (row ! 1) < k_maxDistanceRatio"
proof (rule ccontr)
  assume "\<not> distance (row ! 0) / distance (row ! 1) < k_maxDistanceRatio"
  then have "k_maxDistanceRatio \<le> distance (row ! 0) / distance (row ! 1)" by simp
  from roundf_threshold [OF this] assms show False
    by (simp add: distanceRatio_def fdiv_def)
qed

lemma ex_binade:
  "binade (7 / 10) = - 1" "binade (1 / 2) = - 1" "binade 1 = 0" "binade (1 / 3) = - 2"
  "binade (11744051 / 16777216) = - 1"
  by (rule binade_eq; simp add: power_int_minus)+

lemma ex_fdiv:
  "fdiv 1 2 = Finite (1 / 2)" "fdiv 1 1 = Finite 1" "fdiv 1 3 = Finite (11184811 / 33554432)"
  "fdiv 7 10 = Finite (11744051 / 16777216)"
  "fdiv (11744051 / 16777216) 1 = Finite (11744051 / 16777216)"
  by (simp_all add: fdiv_def roundf_def ex_binade Let_def power_int_minus roundHalfEven_def
      FLT_MAX_def)

lemma ex_ratioTest:
  "map ratioTest ex_fwd = [[cand 0 1 1], []]"
  "map ratioTest ex_rev = [[cand 0 1 1], [cand 1 0 1]]"
  by (simp_all add: ex_fwd_def ex_rev_def ratioTest_def distanceRatio_def ex_fdiv cand_def
      k_maxDistanceRatio_def)

lemma ex_matchFeatures:
  "matchFeatures (tableMatcher ex_queryDtor ex_fwd ex_rev) ex_query ex_train
     = Inr [DMatch_default\<lparr>queryIdx := 0, trainIdx := 1\<rparr>]"
  by (simp add: matchFeatures_unfold [OF ex_build] ex_tables ex_ratioTest)
    (simp add: ex_queryDtor_def ex_trainDtor_def ex_query_def ex_train_def cand_def vat_int_def)

text \<open>The two tables of the example, where the only match is \<open>(0, 1)\<close>.\<close>

theorem matchFeatures_mutually_best_witness:
  "bestMatch ex_fwd 0 = Some 1 \<and> bestMatch ex_rev 1 = Some 0"
proof -
  have r: "rowsIndexed (tableMatcher ex_queryDtor ex_fwd ex_rev ex_queryDtor ex_trainDtor 2)"
    unfolding ex_tables by (simp add: rowsIndexed_def ex_fwd_def cand_def less_Suc_eq)
  have m: "DMatch_default\<lparr>queryIdx := 0, trainIdx := 1\<rparr>
      \<in> set [DMatch_default\<lparr>queryIdx := 0, trainIdx := 1\<rparr>]"
    by simp
  from matchFeatures_mutually_best [OF ex_build r ex_matchFeatures m]
  show ?thesis by (simp add: ex_tables)
qed

lemma crossCheck_all_empty:
  "\<forall>row \<in> set fwdMatches. row = [] \<Longrightarrow> crossCheck fwdMatches rv qi ti acc = Inr acc"
  by (induction fwdMatches) simp_all

text \<open>
  Claim C8 (ratio test). Every returned match is the first candidate of a forward row
  (and of a reverse row) with at least two candidates whose ratio of nearest to
  second-nearest distance, as the \<^verbatim>\<open>float\<close> the code computes, is below
  \<open>k_maxDistanceRatio\<close>, so not greater than or equal to it; the exact quotient of the two
  distances is below the threshold as well. When the ratio of every forward row is
  exactly the threshold, no match is returned.
\<close>

theorem matchFeatures_ratio_below_threshold:
  assumes "buildDescriptorMat queryFeatures [] = Inr (queryDtor, qi)"
    and "buildDescriptorMat trainFeatures [] = Inr (trainDtor, ti)"
  shows "(\<forall>matches m.
            matchFeatures knnMatch queryFeatures trainFeatures = Inr matches \<and> m \<in> set matches \<longrightarrow>
            (\<exists>fwd \<in> set (knnMatch queryDtor trainDtor 2).
               2 \<le> length fwd \<and> queryIdx (fwd ! 0) = queryIdx m \<and> trainIdx (fwd ! 0) = trainIdx m \<and>
               fless (distanceRatio fwd) k_maxDistanceRatio \<and>
               \<not> fgeq (distanceRatio fwd) k_maxDistanceRatio \<and>
               (distance (fwd ! 1) \<noteq> 0 \<longrightarrow>
                  distance (fwd ! 0) / distance (fwd ! 1) < k_maxDistanceRatio)) \<and>
            (\<exists>rev \<in> set (knnMatch trainDtor queryDtor 2).
               2 \<le> length rev \<and> queryIdx (rev ! 0) = trainIdx m \<and> trainIdx (rev ! 0) = queryIdx m \<and>
               fless (distanceRatio rev) k_maxDistanceRatio \<and>
               \<not> fgeq (distanceRatio rev) k_maxDistanceRatio \<and>
               (distance (rev ! 1) \<noteq> 0 \<longrightarrow>
                  distance (rev ! 0) / distance (rev ! 1) < k_maxDistanceRatio))) \<and>
         ((\<forall>fwd \<in> set (knnMatch queryDtor trainDtor 2).
             2 \<le> length fwd \<longrightarrow> distanceRatio fwd = Finite k_maxDistanceRatio) \<longrightarrow>
          matchFeatures knnMatch queryFeatures trainFeatures = Inr [])"
proof (intro conjI allI impI)
  fix matches m
  assume a: "matchFeatures knnMatch queryFeatures trainFeatures = Inr matches \<and> m \<in> set matches"
  from matchFeatures_crossed [OF assms, of knnMatch matches m] a
  obtain i fwdMatch revMatch where
    i: "i < length (knnMatch queryDtor trainDtor 2)" and
    fi: "ratioTest (knnMatch queryDtor trainDtor 2 ! i) = [fwdMatch]" and
    rng: "0 \<le> trainIdx fwdMatch"
      "nat (trainIdx fwdMatch) < length (knnMatch trainDtor queryDtor 2)" and
    ri: "ratioTest (knnMatch trainDtor queryDtor 2 ! nat (trainIdx fwdMatch)) = [revMatch]" and
    x: "queryIdx fwdMatch = trainIdx revMatch" "trainIdx fwdMatch = queryIdx revMatch" and
    m: "queryIdx m = queryIdx fwdMatch" "trainIdx m = trainIdx fwdMatch"
    by blast
  let ?f = "knnMatch queryDtor trainDtor 2 ! i"
  let ?r = "knnMatch trainDtor queryDtor 2 ! nat (trainIdx fwdMatch)"
  have f: "fwdMatch = ?f ! 0" "2 \<le> length ?f" "fless (distanceRatio ?f) k_maxDistanceRatio"
    using ratioTest_Cons(1,3,4) [OF fi] by simp_all
  have r: "revMatch = ?r ! 0" "2 \<le> length ?r" "fless (distanceRatio ?r) k_maxDistanceRatio"
    using ratioTest_Cons(1,3,4) [OF ri] by simp_all
  have "?f \<in> set (knnMatch queryDtor trainDtor 2)"
    using i by simp
  with f m fless_not_fgeq [OF f(3)] distanceRatio_exact [OF f(3)]
  show "\<exists>fwd \<in> set (knnMatch queryDtor trainDtor 2).
               2 \<le> length fwd \<and> queryIdx (fwd ! 0) = queryIdx m \<and> trainIdx (fwd ! 0) = trainIdx m \<and>
               fless (distanceRatio fwd) k_maxDistanceRatio \<and>
               \<not> fgeq (distanceRatio fwd) k_maxDistanceRatio \<and>
               (distance (fwd ! 1) \<noteq> 0 \<longrightarrow>
                  distance (fwd ! 0) / distance (fwd ! 1) < k_maxDistanceRatio)"
    by (intro bexI [of _ ?f]) simp_all
  have "?r \<in> set (knnMatch trainDtor queryDtor 2)"
    using rng by simp
  with r m x fless_not_fgeq [OF r(3)] distanceRatio_exact [OF r(3)]
  show "\<exists>rev \<in> set (knnMatch trainDtor queryDtor 2).
               2 \<le> length rev \<and> queryIdx (rev ! 0) = trainIdx m \<and> trainIdx (rev ! 0) = queryIdx m \<and>
               fless (distanceRatio rev) k_maxDistanceRatio \<and>
               \<not> fgeq (distanceRatio rev) k_maxDistanceRatio \<and>
               (distance (rev ! 1) \<noteq> 0 \<longrightarrow>
                  distance (rev ! 0) / distance (rev ! 1) < k_maxDistanceRatio)"
    by (intro bexI [of _ ?r]) simp_all
next
  assume a: "\<forall>fwd \<in> set (knnMatch queryDtor trainDtor 2).
             2 \<le> length fwd \<longrightarrow> distanceRatio fwd = Finite k_maxDistanceRatio"
  have "\<forall>row \<in> set (map ratioTest (knnMatch queryDtor trainDtor 2)). row = []"
  proof
    fix row assume "row \<in> set (map ratioTest (knnMatch queryDtor trainDtor 2))"
    then obtain c where c: "c \<in> set (knnMatch queryDtor trainDtor 2)" and row: "row = ratioTest c"
      by auto
    show "row = []"
    proof (cases "2 \<le> length c")
      case True
      with a c have "distanceRatio c = Finite k_maxDistanceRatio" by blast
      then show ?thesis by (simp add: row ratioTest_def)
    next
      case False
      then show ?thesis by (simp add: row ratioTest_def)
    qed
  qed
  then show "matchFeatures knnMatch queryFeatures trainFeatures = Inr []"
    by (simp add: matchFeatures_unfold [OF assms] crossCheck_all_empty)
qed

text \<open>The example again, and tables whose ratios are the threshold exactly: the
  distances 7 and 10, whose quotient rounds to \<^verbatim>\<open>0.7f\<close>, and the distances \<^verbatim>\<open>0.7f\<close> and 1.\<close>

theorem matchFeatures_ratio_below_threshold_witness:
  "(\<exists>fwd \<in> set ex_fwd.
      2 \<le> length fwd \<and> queryIdx (fwd ! 0) = 0 \<and> trainIdx (fwd ! 0) = 1 \<and>
      fless (distanceRatio fwd) k_maxDistanceRatio \<and> \<not> fgeq (distanceRatio fwd) k_maxDistanceRatio \<and>
      distance (fwd ! 1) \<noteq> 0 \<and> distance (fwd ! 0) / distance (fwd ! 1) < k_maxDistanceRatio) \<and>
   (\<exists>rev \<in> set ex_rev.
      2 \<le> length rev \<and> queryIdx (rev ! 0) = 1 \<and> trainIdx (rev ! 0) = 0 \<and>
      fless (distanceRatio rev) k_maxDistanceRatio \<and> \<not> fgeq (distanceRatio rev) k_maxDistanceRatio \<and>
      distance (rev ! 1) \<noteq> 0 \<and> distance (rev ! 0) / distance (rev ! 1) < k_maxDistanceRatio) \<and>
   matchFeatures (tableMatcher ex_queryDtor ex_tie ex_tie) ex_query ex_train = Inr []"
proof -
  let ?m = "DMatch_default\<lparr>queryIdx := 0, trainIdx := 1\<rparr>"
  have m: "matchFeatures (tableMatcher ex_queryDtor ex_fwd ex_rev) ex_query ex_train = Inr [?m]
      \<and> ?m \<in> set [?m]"
    by (simp add: ex_matchFeatures)
  have t: "\<forall>fwd \<in> set (tableMatcher ex_queryDtor ex_tie ex_tie ex_queryDtor ex_trainDtor 2).
      2 \<le> length fwd \<longrightarrow> distanceRatio fwd = Finite k_maxDistanceRatio"
    by (simp add: tableMatcher_def ex_tie_def cand_def distanceRatio_def ex_fdiv
        k_maxDistanceRatio_def numeral_2_eq_2)
  have z: "\<forall>row \<in> set ex_fwd \<union> set ex_rev. distance (row ! 1) \<noteq> 0"
    by (simp add: ex_fwd_def ex_rev_def cand_def)
  from matchFeatures_ratio_below_threshold [OF ex_build,
      of "tableMatcher ex_queryDtor ex_fwd ex_rev"] m
    matchFeatures_ratio_below_threshold [OF ex_build,
      of "tableMatcher ex_queryDtor ex_tie ex_tie"] t z
  show ?thesis
    by (simp add: ex_tables)
qed

text \<open>
  Claim C9 (descriptor incompatibility). When the two feature lists are not empty and
  their descriptors differ in width or in type (the matrices take both from the first
  feature), \<open>matchFeatures\<close> returns the empty list of matches and no error.
\<close>

theorem matchFeatures_descriptor_mismatch:
  "dcols q0 \<noteq> dcols t0 \<or> dtype q0 \<noteq> dtype t0 \<Longrightarrow>
   matchFeatures knnMatch (q0 # queryFeatures) (t0 # trainFeatures) = Inr []"
  by (auto simp: matchFeatures_def buildDescriptorMat_Nil)

text \<open>Widths 64 and 128; then equal widths with types 5 and 0.\<close>

theorem matchFeatures_descriptor_mismatch_witness:
  "matchFeatures (tableMatcher ex_queryDtor ex_fwd ex_rev) [descr 64 5 []] [descr 128 5 []] = Inr [] \<and>
   matchFeatures (tableMatcher ex_queryDtor ex_fwd ex_rev) [descr 64 5 []] [descr 64 0 []] = Inr []"
  using matchFeatures_descriptor_mismatch [of "descr 64 5 []" "descr 128 5 []" _ "[]" "[]"]
    matchFeatures_descriptor_mismatch [of "descr 64 5 []" "descr 64 0 []" _ "[]" "[]"]
  by (simp add: descr_def)

text \<open>
  Claim C10 (empty input). \<open>buildDescriptorMat\<close> reads \<^verbatim>\<open>features.at(0)\<close> and throws
  \<^verbatim>\<open>std::out_of_range\<close> exactly on an empty list, so \<open>matchFeatures\<close> with an empty
  query or train list throws and returns no match list.
\<close>

theorem matchFeatures_empty_throws:
  "(buildDescriptorMat features [] = Inl OutOfRange \<longleftrightarrow> features = []) \<and>
   (queryFeatures = [] \<or> trainFeatures = [] \<longrightarrow>
      matchFeatures knnMatch queryFeatures trainFeatures = Inl OutOfRange)"
  by (auto simp: matchFeatures_def buildDescriptorMat_Nil split: list.splits)

text \<open>An empty query list, an empty train list, and a list that is not empty.\<close>

theorem matchFeatures_empty_throws_witness:
  "matchFeatures (tableMatcher ex_queryDtor ex_fwd ex_rev) [] ex_train = Inl OutOfRange \<and>
   matchFeatures (tableMatcher ex_queryDtor ex_fwd ex_rev) ex_query [] = Inl OutOfRange \<and>
   buildDescriptorMat ex_query [] \<noteq> Inl OutOfRange"
  using matchFeatures_empty_throws [of "[]" "[]" ex_train]
    matchFeatures_empty_throws [of ex_query ex_query "[]"]
  by (simp add: ex_query_def)

section \<open>The initialisation and the refinement\<close>

subsection \<open>Maps with errors\<close>

lemma mapE_Inr:
  "(\<forall>x \<in> set xs. f x = Inr (g x)) \<Longrightarrow> mapE f xs = Inr (map g xs)"
  by (induction xs) simp_all

lemma mapE_length:
  "mapE f xs = Inr ys \<Longrightarrow> length ys = length xs"
  by (induction xs arbitrary: ys) (auto split: sum.splits)

lemma mapE_nth:
  "mapE f xs = Inr ys \<Longrightarrow> i < length xs \<Longrightarrow> f (xs ! i) = Inr (ys ! i)"
proof (induction xs arbitrary: ys i)
  case Nil
  then show ?case by simp
next
  case (Cons x xs)
  then show ?case
    by (cases i) (auto split: sum.splits)
qed

lemma mapE_cong:
  "(\<forall>x \<in> set xs. f x = g x) \<Longrightarrow> mapE f xs = mapE g xs"
  by (induction xs) (auto split: sum.splits)

subsection \<open>The extrinsics written\<close>

lemma setGlobalCameraPoses_frame:
  "setGlobalCameraPoses js T ext = Inr ext' \<Longrightarrow>
   length ext' = length ext \<and> (\<forall>j. j \<notin> set js \<longrightarrow> ext' ! j = ext ! j)"
proof (induction js arbitrary: ext)
  case Nil
  then show ?case by simp
next
  case (Cons j js)
  from Cons.prems obtain pose where p: "vat T j = Inr pose" and j: "j < length ext"
    and r: "setGlobalCameraPoses js T (ext[j := pose]) = Inr ext'"
    by (auto simp: vset_def split: sum.splits if_splits)
  from Cons.IH [OF r] show ?case by auto
qed

lemma setGlobalCameraPoses_ok:
  assumes "\<forall>j \<in> set js. j < length T \<and> j < length ext" and "distinct js"
  shows "\<exists>ext'. setGlobalCameraPoses js T ext = Inr ext' \<and> length ext' = length ext \<and>
           (\<forall>j \<in> set js. ext' ! j = T ! j) \<and> (\<forall>j. j \<notin> set js \<longrightarrow> ext' ! j = ext ! j)"
  using assms
proof (induction js arbitrary: ext)
  case Nil
  then show ?case by simp
next
  case (Cons j js)
  let ?ext = "ext[j := T ! j]"
  from Cons.prems have "\<forall>i \<in> set js. i < length T \<and> i < length ?ext" "distinct js"
    by simp_all
  from Cons.IH [OF this] obtain ext' where
    e: "setGlobalCameraPoses js T ?ext = Inr ext'" "length ext' = length ext"
      "\<forall>i \<in> set js. ext' ! i = T ! i" "\<forall>i. i \<notin> set js \<longrightarrow> ext' ! i = ?ext ! i"
    by auto
  from Cons.prems have j: "j < length T" "j < length ext" "j \<notin> set js"
    by simp_all
  have "setGlobalCameraPoses (j # js) T ext = Inr ext'"
    using j e(1) by (simp add: vat_def vset_def)
  moreover have "ext' ! j = T ! j"
    using e(4) j by simp
  moreover have "\<forall>i. i \<notin> set (j # js) \<longrightarrow> ext' ! i = ext ! i"
    using e(4) by simp
  ultimately show ?case
    using e(2,3) by auto
qed

lemma list_eq_nth0:
  assumes "length xs = length ys" and "xs ! 0 = ys ! 0"
    and "\<forall>j \<in> set [1 ..< length ys]. xs ! j = ys ! j"
  shows "xs = ys"
proof (rule nth_equalityI)
  show "length xs = length ys" by fact
next
  fix i assume "i < length xs"
  with assms show "xs ! i = ys ! i"
    by (cases i) auto
qed

subsection \<open>Complete sets\<close>

lemma complete_iff:
  assumes "framesetOK n frameset"
  shows "\<not> length (frames frameset) < n \<longleftrightarrow> structurallyComplete n frameset"
proof -
  let ?ids = "map cameraId (frames frameset)"
  from assms have d: "distinct ?ids" and b: "set ?ids \<subseteq> {0 ..< n}"
    and c: "\<forall>f \<in> set (frames frameset). camera f \<noteq> None"
    by (auto simp: framesetOK_def)
  have card: "card (set ?ids) = length (frames frameset)"
    using distinct_card [OF d] by simp
  show ?thesis
  proof
    assume "\<not> length (frames frameset) < n"
    with card have "card {0 ..< n} \<le> card (set ?ids)" by simp
    with b have "set ?ids = {0 ..< n}"
      by (metis card_seteq finite_atLeastLessThan)
    then have "\<forall>j < n. j \<in> cameraId ` set (frames frameset)"
      by auto
    with c show "structurallyComplete n frameset"
      unfolding structurallyComplete_def by fastforce
  next
    assume "structurallyComplete n frameset"
    then have "{0 ..< n} \<subseteq> set ?ids"
      unfolding structurallyComplete_def by force
    then have "card {0 ..< n} \<le> card (set ?ids)"
      by (intro card_mono) simp_all
    with card show "\<not> length (frames frameset) < n" by simp
  qed
qed

subsection \<open>The hypothesis of a set\<close>

lemma fillPoses_ok:
  assumes "distinct (map cameraId fs)" and "\<forall>f \<in> set fs. cameraId f < length v \<and> camera f \<noteq> None"
  shows "\<exists>v'. fillPoses fs v = Inr v' \<and> length v' = length v \<and>
           (\<forall>f \<in> set fs. v' ! cameraId f = camera f) \<and>
           (\<forall>i < length v. i \<notin> cameraId ` set fs \<longrightarrow> v' ! i = v ! i)"
  using assms
proof (induction fs arbitrary: v)
  case Nil
  then show ?case by simp
next
  case (Cons f fs)
  from Cons.prems obtain pose where pose: "camera f = Some pose" by auto
  let ?v = "v[cameraId f := Some pose]"
  from Cons.prems have d: "distinct (map cameraId fs)"
    and r: "\<forall>g \<in> set fs. cameraId g < length ?v \<and> camera g \<noteq> None"
    and nf: "cameraId f \<notin> cameraId ` set fs" and lf: "cameraId f < length v"
    by simp_all
  from Cons.IH [OF d r] obtain v' where
    v': "fillPoses fs ?v = Inr v'" "length v' = length v"
      "\<forall>g \<in> set fs. v' ! cameraId g = camera g"
      "\<forall>i < length v. i \<notin> cameraId ` set fs \<longrightarrow> v' ! i = ?v ! i"
    by auto
  have "fillPoses (f # fs) v = Inr v'"
    using lf v'(1) pose by (simp add: vset_def)
  moreover have "v' ! cameraId f = camera f"
    using v'(4) nf lf pose by simp
  moreover have "\<forall>i < length v. i \<notin> cameraId ` set (f # fs) \<longrightarrow> v' ! i = v ! i"
    using v'(4) by auto
  ultimately show ?case
    using v'(2,3) by auto
qed

lemma hypothesis_ok:
  assumes ok: "framesetOK n frameset" and c: "structurallyComplete n frameset" and n: "0 < n"
  shows "\<exists>T. hypothesis relPose n frameset = Inr T \<and> length T = n \<and> T ! 0 = Identity"
proof -
  from ok have d: "distinct (map cameraId (frames frameset))"
    and b: "\<forall>f \<in> set (frames frameset). cameraId f < length (replicate n (None :: Pose option))
              \<and> camera f \<noteq> None"
    by (simp_all add: framesetOK_def)
  from fillPoses_ok [OF d b] obtain poses where
    p: "fillPoses (frames frameset) (replicate n None) = Inr poses" "length poses = n"
      "\<forall>f \<in> set (frames frameset). poses ! cameraId f = camera f"
    by auto
  have some: "\<forall>j < n. \<exists>pj. poses ! j = Some pj"
  proof (intro allI impI)
    fix j assume "j < n"
    with c obtain f where "f \<in> set (frames frameset)" "cameraId f = j" "camera f \<noteq> None"
      unfolding structurallyComplete_def by blast
    with p(3) show "\<exists>pj. poses ! j = Some pj" by auto
  qed
  let ?g = "\<lambda>j. relPose (the (poses ! 0)) (the (poses ! j))"
  have "mapE (\<lambda>j. case poses ! 0 of
                     None \<Rightarrow> Inl UninitialisedRead
                   | Some p0 \<Rightarrow> (case poses ! j of
                                  None \<Rightarrow> Inl UninitialisedRead
                                | Some pj \<Rightarrow> Inr (relPose p0 pj)))
              [1 ..< n] = Inr (map ?g [1 ..< n])"
  proof (rule mapE_Inr, rule ballI)
    fix j assume "j \<in> set [1 ..< n]"
    then have "j < n" by simp
    with some n obtain p0 pj where "poses ! 0 = Some p0" "poses ! j = Some pj"
      by blast
    then show "(case poses ! 0 of
                     None \<Rightarrow> Inl UninitialisedRead
                   | Some p0 \<Rightarrow> (case poses ! j of
                                  None \<Rightarrow> Inl UninitialisedRead
                                | Some pj \<Rightarrow> Inr (relPose p0 pj))) = Inr (?g j)"
      by simp
  qed
  with p(1) n have "hypothesis relPose n frameset = Inr (Identity # map ?g [1 ..< n])"
    by (simp add: hypothesis_def)
  moreover from n have "length (Identity # map ?g [1 ..< n]) = n" by simp
  ultimately show ?thesis by auto
qed

text \<open>The hypothesis reads the camera ids and the poses of the frames only.\<close>

lemma fillPoses_strip:
  "fillPoses (map (\<lambda>f. f\<lparr>odometry := x f\<rparr>) fs) v = fillPoses fs v"
  by (induction fs arbitrary: v) (auto split: option.splits sum.splits)

subsection \<open>The odometry of a trial\<close>

lemma posePairs_ok:
  assumes "\<forall>f \<in> set fs. cameraId f < length T \<and> camera f \<noteq> None"
  shows "posePairs T fs = Inr (map (\<lambda>f. (the (camera f), T ! cameraId f)) fs)"
  unfolding posePairs_def
proof (rule mapE_Inr, rule ballI)
  fix f assume "f \<in> set fs"
  with assms have "cameraId f < length T" "camera f \<noteq> None" by auto
  then show "(case vat T (cameraId f) of
               Inl e \<Rightarrow> Inl e
             | Inr Tc \<Rightarrow> (case camera f of None \<Rightarrow> Inl NullPointer
                          | Some cameraPose \<Rightarrow> Inr (cameraPose, Tc)))
             = Inr (the (camera f), T ! cameraId f)"
    by (auto simp: vat_def)
qed

lemma posePairs_odometry:
  "posePairs T (map (\<lambda>f. f\<lparr>odometry := x f\<rparr>) fs) = posePairs T fs"
  unfolding posePairs_def by (induction fs) (auto split: sum.splits option.splits)

text \<open>The odometry the trial gives the frames of a set.\<close>

lemma trialOdometry_ok:
  assumes "frames frameset \<noteq> []" and "framesetOK n frameset" and "length T = n"
  shows "trialOdometry fuse T frameset = Inr (withOdometry (trialValue fuse T frameset) frameset)"
proof -
  from assms have b: "\<forall>f \<in> set (frames frameset). cameraId f < length T \<and> camera f \<noteq> None"
    by (auto simp: framesetOK_def)
  from assms(1) obtain f0 fs where f: "frames frameset = f0 # fs"
    by (cases "frames frameset") auto
  with b obtain pose0 where p0: "camera f0 = Some pose0" by auto
  show ?thesis
    unfolding trialOdometry_def posePairs_ok [OF b]
    using f p0 by (simp add: vat_def trialValue_def withOdometry_def Let_def)
qed

lemma withOdometry_props:
  "map cameraId (frames (withOdometry odo frameset)) = map cameraId (frames frameset)"
  "map camera (frames (withOdometry odo frameset)) = map camera (frames frameset)"
  "map features2D (frames (withOdometry odo frameset)) = map features2D (frames frameset)"
  "length (frames (withOdometry odo frameset)) = length (frames frameset)"
  "timestamp (withOdometry odo frameset) = timestamp frameset"
  "\<forall>f \<in> set (frames (withOdometry odo frameset)). odometry f = Some odo"
  by (simp_all add: withOdometry_def comp_def)

lemma framesetOK_withOdometry:
  "framesetOK n (withOdometry odo frameset) = framesetOK n frameset"
  by (auto simp: framesetOK_def withOdometry_def comp_def)

lemma stripOdometry_withOdometry:
  "stripOdometry (withOdometry odo frameset) = stripOdometry frameset"
  by (simp add: stripOdometry_def withOdometry_def comp_def)

lemma stripOdometry_eq:
  assumes "stripOdometry a = stripOdometry b"
  shows "map cameraId (frames a) = map cameraId (frames b)"
    and "map camera (frames a) = map camera (frames b)"
    and "length (frames a) = length (frames b)"
    and "withOdometry odo a = withOdometry odo b"
proof -
  from assms have eq: "map (\<lambda>f. f\<lparr>odometry := None\<rparr>) (frames a) = map (\<lambda>f. f\<lparr>odometry := None\<rparr>) (frames b)"
    and more: "a\<lparr>frames := []\<rparr> = b\<lparr>frames := []\<rparr>"
    unfolding stripOdometry_def
    by (metis FrameSet.select_convs(1) FrameSet.surjective FrameSet.update_convs(1),
        metis FrameSet.surjective FrameSet.update_convs(1))
  from eq have "map cameraId (map (\<lambda>f. f\<lparr>odometry := None\<rparr>) (frames a))
      = map cameraId (map (\<lambda>f. f\<lparr>odometry := None\<rparr>) (frames b))" by simp
  then show "map cameraId (frames a) = map cameraId (frames b)" by (simp add: comp_def)
  from eq have "map camera (map (\<lambda>f. f\<lparr>odometry := None\<rparr>) (frames a))
      = map camera (map (\<lambda>f. f\<lparr>odometry := None\<rparr>) (frames b))" by simp
  then show "map camera (frames a) = map camera (frames b)" by (simp add: comp_def)
  from eq show "length (frames a) = length (frames b)" by (metis length_map)
  from eq have "map (\<lambda>f. f\<lparr>odometry := Some odo\<rparr>) (map (\<lambda>f. f\<lparr>odometry := None\<rparr>) (frames a))
      = map (\<lambda>f. f\<lparr>odometry := Some odo\<rparr>) (map (\<lambda>f. f\<lparr>odometry := None\<rparr>) (frames b))" by simp
  then have "map (\<lambda>f. f\<lparr>odometry := Some odo\<rparr>) (frames a) = map (\<lambda>f. f\<lparr>odometry := Some odo\<rparr>) (frames b)"
    by (simp add: comp_def)
  with more show "withOdometry odo a = withOdometry odo b"
    unfolding withOdometry_def
    by (metis FrameSet.surjective FrameSet.update_convs(1))
qed

lemma sameSkeleton_refl: "sameSkeleton st st"
  by (simp add: sameSkeleton_def)

lemma sameSkeleton_fields:
  assumes "sameSkeleton st0 st"
  shows "m_cameras st = m_cameras st0"
    and "f2d_feature3D st = f2d_feature3D st0" and "f2d_keypoint st = f2d_keypoint st0"
    and "f3d_point st = f3d_point st0"
    and "length (m_framesets st) = length (m_framesets st0)"
proof -
  from assms have e: "st = st0\<lparr>m_extrinsics := m_extrinsics st, m_framesets := m_framesets st\<rparr>"
    and s: "map stripOdometry (m_framesets st) = map stripOdometry (m_framesets st0)"
    by (simp_all add: sameSkeleton_def)
  show "m_cameras st = m_cameras st0" by (subst e) simp
  show "f2d_feature3D st = f2d_feature3D st0" by (subst e) simp
  show "f2d_keypoint st = f2d_keypoint st0" by (subst e) simp
  show "f3d_point st = f3d_point st0" by (subst e) simp
  from s show "length (m_framesets st) = length (m_framesets st0)" by (metis length_map)
qed

lemma sameSkeleton_nth:
  assumes "sameSkeleton st0 st" and "i < length (m_framesets st0)"
  shows "stripOdometry (m_framesets st ! i) = stripOdometry (m_framesets st0 ! i)"
proof -
  from assms(1) have s: "map stripOdometry (m_framesets st) = map stripOdometry (m_framesets st0)"
    by (simp add: sameSkeleton_def)
  from assms have "i < length (m_framesets st)"
    by (simp add: sameSkeleton_fields)
  with assms(2) s show ?thesis
    by (metis nth_map)
qed

lemma map_by_fields:
  "map camera xs = map camera ys \<Longrightarrow> map cameraId xs = map cameraId ys \<Longrightarrow>
   map (\<lambda>f. h (camera f) (cameraId f)) xs = map (\<lambda>f. h (camera f) (cameraId f)) ys"
proof (induction xs arbitrary: ys)
  case Nil
  then show ?case by simp
next
  case (Cons x xs)
  then show ?case by (cases ys) auto
qed

lemma strip_map_eq:
  assumes "stripOdometry a = stripOdometry b"
  shows "map (\<lambda>f. h (camera f) (cameraId f)) (frames a) = map (\<lambda>f. h (camera f) (cameraId f)) (frames b)"
  using stripOdometry_eq(2,1) [OF assms] by (rule map_by_fields)

lemma strip_trialValue:
  assumes "stripOdometry a = stripOdometry b"
  shows "trialValue fuse T a = trialValue fuse T b"
proof -
  have m: "map (\<lambda>f. (the (camera f), T ! cameraId f)) (frames a)
      = map (\<lambda>f. (the (camera f), T ! cameraId f)) (frames b)"
    by (rule strip_map_eq [OF assms, of "\<lambda>c i. (the c, T ! i)"])
  have "camera (hd (frames a)) = camera (hd (frames b))"
  proof (cases "frames a")
    case Nil
    with stripOdometry_eq(3) [OF assms] show ?thesis by simp
  next
    case (Cons x xs)
    with stripOdometry_eq(3) [OF assms] obtain y ys where "frames b = y # ys"
      by (cases "frames b") auto
    with Cons stripOdometry_eq(2) [OF assms] show ?thesis by simp
  qed
  with m show ?thesis
    by (simp add: trialValue_def)
qed

lemma strip_hypothesis:
  assumes "stripOdometry a = stripOdometry b"
  shows "hypothesis relPose n a = hypothesis relPose n b"
proof -
  from assms have "map (\<lambda>f. f\<lparr>odometry := None\<rparr>) (frames a) = map (\<lambda>f. f\<lparr>odometry := None\<rparr>) (frames b)"
    unfolding stripOdometry_def
    by (metis FrameSet.select_convs(1) FrameSet.surjective FrameSet.update_convs(1))
  then have "fillPoses (frames a) v = fillPoses (frames b) v" for v
    using fillPoses_strip [of "\<lambda>f. None" "frames a" v] fillPoses_strip [of "\<lambda>f. None" "frames b" v]
    by simp
  then show ?thesis by (simp add: hypothesis_def)
qed

lemma strip_framesetOK:
  assumes "stripOdometry a = stripOdometry b"
  shows "framesetOK n a = framesetOK n b" and "(frames a = []) = (frames b = [])"
    and "structurallyComplete n a = structurallyComplete n b"
proof -
  note e = stripOdometry_eq [OF assms]
  have s: "(\<lambda>f. (cameraId f, camera f)) ` set (frames a) = (\<lambda>f. (cameraId f, camera f)) ` set (frames b)"
    using strip_map_eq [OF assms, of "\<lambda>c i. (i, c)"] by (metis set_map)
  have ok: "framesetOK n x = (distinct (map cameraId (frames x)) \<and>
      (\<forall>p \<in> (\<lambda>f. (cameraId f, camera f)) ` set (frames x). fst p < n \<and> snd p \<noteq> None))" for x
    unfolding framesetOK_def by auto
  show "framesetOK n a = framesetOK n b"
    unfolding ok s e(1) ..
  from e(3) show "(frames a = []) = (frames b = [])" by auto
  have sc: "structurallyComplete n x = (\<forall>j < n. \<exists>p \<in> (\<lambda>f. (cameraId f, camera f)) ` set (frames x).
      fst p = j \<and> snd p \<noteq> None)" for x
    unfolding structurallyComplete_def by auto
  show "structurallyComplete n a = structurallyComplete n b"
    unfolding sc s ..
qed

lemma wellFormed_skeleton:
  assumes "wellFormed st0" and "sameSkeleton st0 st"
  shows "\<forall>frameset \<in> set (m_framesets st). frames frameset \<noteq> [] \<and> framesetOK (m_cameras st0) frameset"
proof
  fix frameset assume "frameset \<in> set (m_framesets st)"
  then obtain i where i: "i < length (m_framesets st)" "frameset = m_framesets st ! i"
    by (auto simp: in_set_conv_nth)
  with assms(2) have i0: "i < length (m_framesets st0)"
    by (simp add: sameSkeleton_fields)
  from sameSkeleton_nth [OF assms(2) i0] i
  have s: "stripOdometry frameset = stripOdometry (m_framesets st0 ! i)" by simp
  from assms(1) i0 have "frames (m_framesets st0 ! i) \<noteq> [] \<and> framesetOK (m_cameras st0) (m_framesets st0 ! i)"
    by (simp add: wellFormed_def)
  with strip_framesetOK(1,2) [OF s] show "frames frameset \<noteq> [] \<and> framesetOK (m_cameras st0) frameset"
    by simp
qed

lemma trial_map_skeleton:
  assumes "sameSkeleton st0 st"
  shows "map (\<lambda>fs. withOdometry (trialValue fuse T fs) fs) (m_framesets st)
       = map (\<lambda>fs. withOdometry (trialValue fuse T fs) fs) (m_framesets st0)"
proof (rule nth_equalityI)
  show "length (map (\<lambda>fs. withOdometry (trialValue fuse T fs) fs) (m_framesets st))
      = length (map (\<lambda>fs. withOdometry (trialValue fuse T fs) fs) (m_framesets st0))"
    using assms by (simp add: sameSkeleton_fields)
next
  fix i assume "i < length (map (\<lambda>fs. withOdometry (trialValue fuse T fs) fs) (m_framesets st))"
  then have i: "i < length (m_framesets st)" "i < length (m_framesets st0)"
    using assms by (simp_all add: sameSkeleton_fields)
  from sameSkeleton_nth [OF assms i(2)]
  have s: "stripOdometry (m_framesets st ! i) = stripOdometry (m_framesets st0 ! i)" .
  have "withOdometry (trialValue fuse T (m_framesets st ! i)) (m_framesets st ! i)
      = withOdometry (trialValue fuse T (m_framesets st0 ! i)) (m_framesets st0 ! i)"
    unfolding strip_trialValue [OF s] by (rule stripOdometry_eq(4) [OF s])
  with i show "map (\<lambda>fs. withOdometry (trialValue fuse T fs) fs) (m_framesets st) ! i
      = map (\<lambda>fs. withOdometry (trialValue fuse T fs) fs) (m_framesets st0) ! i"
    by simp
qed

lemma tryHypothesis_ok:
  assumes wf: "wellFormed st0" and sk: "sameSkeleton st0 st"
    and fs: "stripOdometry frameset = stripOdometry fs0"
    and ok: "framesetOK (m_cameras st0) fs0" and c: "structurallyComplete (m_cameras st0) fs0"
  shows "\<exists>T. hypothesis relPose (m_cameras st0) fs0 = Inr T \<and> length T = m_cameras st0 \<and>
           T ! 0 = Identity \<and>
           tryHypothesis relPose fuse frameset st = Inr (T, hypState fuse T st0)"
proof -
  let ?n = "m_cameras st0"
  from wf have n: "0 < ?n" and le: "length (m_extrinsics st0) = ?n"
    by (simp_all add: wellFormed_def)
  from hypothesis_ok [OF ok c n, of relPose] obtain T where
    T: "hypothesis relPose ?n fs0 = Inr T" "length T = ?n" "T ! 0 = Identity"
    by blast
  have h: "hypothesis relPose (m_cameras st) frameset = Inr T"
    using T(1) strip_hypothesis [OF fs, of relPose ?n] sameSkeleton_fields(1) [OF sk] by simp
  from sk have ls: "length (m_extrinsics st) = ?n" and e0: "m_extrinsics st ! 0 = m_extrinsics st0 ! 0"
    using le by (simp_all add: sameSkeleton_def)
  have "\<forall>j \<in> set [1 ..< ?n]. j < length T \<and> j < length (m_extrinsics st)" "distinct [1 ..< ?n]"
    using T(2) ls by simp_all
  from setGlobalCameraPoses_ok [OF this] obtain ext' where
    x: "setGlobalCameraPoses [1 ..< ?n] T (m_extrinsics st) = Inr ext'" "length ext' = ?n"
      "\<forall>j \<in> set [1 ..< ?n]. ext' ! j = T ! j" "ext' ! 0 = m_extrinsics st ! 0"
    using ls by auto
  have ext': "ext' = (m_extrinsics st0 ! 0) # tl T"
  proof (rule list_eq_nth0)
    show "length ext' = length ((m_extrinsics st0 ! 0) # tl T)"
      using x(2) T(2) n by simp
    show "ext' ! 0 = ((m_extrinsics st0 ! 0) # tl T) ! 0"
      using x(4) e0 by simp
    show "\<forall>j \<in> set [1 ..< length ((m_extrinsics st0 ! 0) # tl T)].
        ext' ! j = ((m_extrinsics st0 ! 0) # tl T) ! j"
    proof
      fix j assume "j \<in> set [1 ..< length ((m_extrinsics st0 ! 0) # tl T)]"
      with T(2) n have j: "1 \<le> j" "j < ?n" by simp_all
      then obtain k where k: "j = Suc k" by (cases j) auto
      with j T(2) have "((m_extrinsics st0 ! 0) # tl T) ! j = T ! j"
        by (simp add: nth_tl)
      with x(3) j show "ext' ! j = ((m_extrinsics st0 ! 0) # tl T) ! j" by simp
    qed
  qed
  have "\<forall>frameset \<in> set (m_framesets st).
          trialOdometry fuse T frameset = Inr (withOdometry (trialValue fuse T frameset) frameset)"
    using wellFormed_skeleton [OF wf sk] T(2) by (auto intro: trialOdometry_ok)
  then have m: "mapE (trialOdometry fuse T) (m_framesets st)
      = Inr (map (\<lambda>fs. withOdometry (trialValue fuse T fs) fs) (m_framesets st0))"
    unfolding trial_map_skeleton [OF sk, symmetric] by (rule mapE_Inr)
  from sk have rec: "st = st0\<lparr>m_extrinsics := m_extrinsics st, m_framesets := m_framesets st\<rparr>"
    by (simp add: sameSkeleton_def)
  have "st\<lparr>m_extrinsics := ext',
             m_framesets := map (\<lambda>fs. withOdometry (trialValue fuse T fs) fs) (m_framesets st0)\<rparr>
      = hypState fuse T st0"
    by (subst rec) (simp add: hypState_def ext')
  with h x(1) m sameSkeleton_fields(1) [OF sk] have
    "tryHypothesis relPose fuse frameset st = Inr (T, hypState fuse T st0)"
    by (simp add: tryHypothesis_def)
  with T show ?thesis by blast
qed

lemma hypState_skeleton:
  assumes "wellFormed st0" and "length T = m_cameras st0"
  shows "sameSkeleton st0 (hypState fuse T st0)"
  using assms
  by (simp add: sameSkeleton_def hypState_def wellFormed_def stripOdometry_withOdometry comp_def)

lemma hypState_odometry:
  "\<forall>frameset \<in> set (m_framesets (hypState fuse T st0)). \<forall>f \<in> set (frames frameset). odometry f \<noteq> None"
  by (auto simp: hypState_def withOdometry_def)

subsection \<open>The evaluation of a hypothesis\<close>

lemma frameErrors_ok:
  "odometry frame \<noteq> None \<Longrightarrow> \<exists>r. frameErrors E st frame T features acc = Inr r"
proof (induction features arbitrary: acc)
  case Nil
  then show ?case by (cases acc) auto
next
  case (Cons p features)
  obtain mn mx total count where acc: "acc = (mn, mx, total, count)"
    by (cases acc) auto
  from Cons show ?case
    unfolding acc by (auto simp: Let_def split: option.splits)
qed

lemma frameReprojectionError_ok:
  "odometry frame \<noteq> None \<Longrightarrow> \<exists>r. frameReprojectionError E st frame T = Inr r"
  using frameErrors_ok [of frame E st T "features2D frame" "(DBL_MAX, DBL_MIN, 0, 0)"]
  by (auto simp: frameReprojectionError_def split: prod.splits)

lemma setErrors_ok:
  assumes "\<forall>f \<in> set fs. cameraId f < length (m_extrinsics st) \<and> cameraId f < m_cameras st \<and>
             odometry f \<noteq> None"
  shows "\<exists>r. setErrors E st fs acc = Inr r"
  using assms
proof (induction fs arbitrary: acc)
  case Nil
  then show ?case by (cases acc) auto
next
  case (Cons f fs)
  obtain mn mx total count where acc: "acc = (mn, mx, total, count)"
    by (cases acc) auto
  from Cons.prems have f: "cameraId f < length (m_extrinsics st)" "cameraId f < m_cameras st"
    "odometry f \<noteq> None"
    by simp_all
  from frameReprojectionError_ok [OF f(3), of E st "m_extrinsics st ! cameraId f"]
  obtain a b c d where r: "frameReprojectionError E st f (m_extrinsics st ! cameraId f) = Inr (a, b, c, d)"
    by (metis prod_cases4)
  from Cons.prems have "\<forall>f \<in> set fs. cameraId f < length (m_extrinsics st) \<and> cameraId f < m_cameras st \<and>
             odometry f \<noteq> None"
    by simp
  from Cons.IH [OF this] f r show ?case
    unfolding acc by (simp add: vat_def)
qed

lemma reprojectionError_ok:
  assumes "\<forall>frameset \<in> set (m_framesets st). \<forall>f \<in> set (frames frameset).
             cameraId f < length (m_extrinsics st) \<and> cameraId f < m_cameras st \<and> odometry f \<noteq> None"
  shows "\<exists>mn mx avg cnt. reprojectionError E st = Inr (mn, mx, avg, cnt)"
proof -
  from assms have "\<forall>f \<in> set (concat (map frames (m_framesets st))).
      cameraId f < length (m_extrinsics st) \<and> cameraId f < m_cameras st \<and> odometry f \<noteq> None"
    by auto
  from setErrors_ok [OF this, of E "(DBL_MAX, DBL_MIN, 0, 0)"]
  obtain a b c d where "setErrors E st (concat (map frames (m_framesets st))) (DBL_MAX, DBL_MIN, 0, 0)
      = Inr (a, b, c, d)"
    by (metis prod_cases4)
  then show ?thesis
    by (simp add: reprojectionError_def)
qed

lemma hypState_error:
  assumes wf: "wellFormed st0" and T: "length T = m_cameras st0"
  shows "\<exists>mn mx avg cnt. reprojectionError E (hypState fuse T st0) = Inr (mn, mx, avg, cnt)"
proof (rule reprojectionError_ok, intro ballI)
  let ?st = "hypState fuse T st0"
  fix frameset f assume a: "frameset \<in> set (m_framesets ?st)" "f \<in> set (frames frameset)"
  note sk = hypState_skeleton [OF wf T, of fuse]
  from wellFormed_skeleton [OF wf sk] a have "cameraId f < m_cameras st0"
    by (auto simp: framesetOK_def)
  moreover from sk wf have "length (m_extrinsics ?st) = m_cameras st0"
    by (simp add: sameSkeleton_def wellFormed_def)
  moreover from a hypState_odometry have "odometry f \<noteq> None" by blast
  ultimately show "cameraId f < length (m_extrinsics ?st) \<and> cameraId f < m_cameras ?st \<and>
      odometry f \<noteq> None"
    using sameSkeleton_fields(1) [OF sk] by simp
qed

lemma hypothesisError_ok:
  assumes wf: "wellFormed st0" and "frameset \<in> set (m_framesets st0)"
    and c: "structurallyComplete (m_cameras st0) frameset"
  shows "\<exists>T mn mx avg cnt. hypothesis relPose (m_cameras st0) frameset = Inr T \<and>
           length T = m_cameras st0 \<and> T ! 0 = Identity \<and>
           tryHypothesis relPose fuse frameset st0 = Inr (T, hypState fuse T st0) \<and>
           reprojectionError E (hypState fuse T st0) = Inr (mn, mx, avg, cnt) \<and>
           hypothesisError relPose fuse E st0 frameset = Some avg"
proof -
  from wf assms(2) have ok: "framesetOK (m_cameras st0) frameset"
    by (simp add: wellFormed_def)
  from tryHypothesis_ok [OF wf sameSkeleton_refl refl ok c, of relPose fuse] obtain T where
    T: "hypothesis relPose (m_cameras st0) frameset = Inr T" "length T = m_cameras st0"
      "T ! 0 = Identity" "tryHypothesis relPose fuse frameset st0 = Inr (T, hypState fuse T st0)"
    by blast
  from hypState_error [OF wf T(2), of E fuse] obtain mn mx avg cnt where
    r: "reprojectionError E (hypState fuse T st0) = Inr (mn, mx, avg, cnt)"
    by blast
  with T(4) have "hypothesisError relPose fuse E st0 frameset = Some avg"
    by (simp add: hypothesisError_def)
  with T r show ?thesis by blast
qed

lemma searchHypotheses_ok:
  assumes wf: "wellFormed st0"
  shows "sameSkeleton st0 st \<Longrightarrow> \<forall>i \<in> set is. i < length (m_framesets st0) \<Longrightarrow>
    \<exists>m' b' st'.
      searchHypotheses relPose fuse E is (m, b) st = Inr ((m', b'), st') \<and>
      sameSkeleton st0 st' \<and> m' \<le> m \<and>
      (\<forall>i \<in> set is. structurallyComplete (m_cameras st0) (m_framesets st0 ! i) \<longrightarrow>
         (\<exists>e. hypothesisError relPose fuse E st0 (m_framesets st0 ! i) = Some e \<and> m' \<le> e)) \<and>
      ((m', b') = (m, b) \<or>
       (\<exists>k \<in> set is. structurallyComplete (m_cameras st0) (m_framesets st0 ! k) \<and>
          hypothesis relPose (m_cameras st0) (m_framesets st0 ! k) = Inr b' \<and>
          hypothesisError relPose fuse E st0 (m_framesets st0 ! k) = Some m' \<and> m' < m)) \<and>
      ((\<forall>i \<in> set is. \<not> structurallyComplete (m_cameras st0) (m_framesets st0 ! i)) \<longrightarrow> st' = st) \<and>
      ((\<exists>i \<in> set is. structurallyComplete (m_cameras st0) (m_framesets st0 ! i)) \<longrightarrow>
         (\<forall>frameset \<in> set (m_framesets st'). \<forall>f \<in> set (frames frameset). odometry f \<noteq> None))"
proof (induction "is" arbitrary: m b st)
  case Nil
  then show ?case by simp
next
  case (Cons i "is")
  let ?n = "m_cameras st0"
  let ?F = "m_framesets st0"
  let ?C = "\<lambda>i. structurallyComplete ?n (?F ! i)"
  let ?err = "\<lambda>i. hypothesisError relPose fuse E st0 (?F ! i)"
  from Cons.prems have sk: "sameSkeleton st0 st" and i: "i < length ?F"
    and rest: "\<forall>i \<in> set is. i < length ?F"
    by simp_all
  have li: "i < length (m_framesets st)"
    using i sameSkeleton_fields(5) [OF sk] by simp
  note s = sameSkeleton_nth [OF sk i]
  from wf i have ok: "framesetOK ?n (?F ! i)" and mem: "?F ! i \<in> set ?F"
    by (simp_all add: wellFormed_def)
  have test: "length (frames (m_framesets st ! i)) < m_cameras st \<longleftrightarrow> \<not> ?C i"
    using complete_iff [OF ok] stripOdometry_eq(3) [OF s] sameSkeleton_fields(1) [OF sk]
    by auto
  show ?case
  proof (cases "?C i")
    case False
    with test li have step: "searchHypotheses relPose fuse E (i # is) (m, b) st
        = searchHypotheses relPose fuse E is (m, b) st"
      by (simp add: vat_def)
    from Cons.IH [OF sk rest, of m b] False show ?thesis
      unfolding step by auto
  next
    case True
    from hypothesisError_ok [OF wf mem True, of relPose fuse E] obtain T mn mx avg cnt where
      T: "hypothesis relPose ?n (?F ! i) = Inr T" "length T = ?n"
      and r: "reprojectionError E (hypState fuse T st0) = Inr (mn, mx, avg, cnt)"
      and e: "?err i = Some avg"
      by blast
    from tryHypothesis_ok [OF wf sk s ok True, of relPose fuse] T(1)
    have t: "tryHypothesis relPose fuse (m_framesets st ! i) st = Inr (T, hypState fuse T st0)"
      by auto
    let ?acc = "if avg < m then (avg, T) else (m, b)"
    let ?st1 = "hypState fuse T st0"
    have step: "searchHypotheses relPose fuse E (i # is) (m, b) st
        = searchHypotheses relPose fuse E is ?acc ?st1"
      using test True li t r by (simp add: vat_def)
    note sk1 = hypState_skeleton [OF wf T(2), of fuse]
    from Cons.IH [OF sk1 rest, of "fst ?acc" "snd ?acc"] obtain m' b' st' where
      run: "searchHypotheses relPose fuse E is ?acc ?st1 = Inr ((m', b'), st')"
      and sk': "sameSkeleton st0 st'" and le: "m' \<le> fst ?acc"
      and low: "\<forall>i \<in> set is. ?C i \<longrightarrow> (\<exists>e. ?err i = Some e \<and> m' \<le> e)"
      and arg: "(m', b') = ?acc \<or>
          (\<exists>k \<in> set is. ?C k \<and> hypothesis relPose ?n (?F ! k) = Inr b' \<and> ?err k = Some m' \<and>
             m' < fst ?acc)"
      and same: "(\<forall>i \<in> set is. \<not> ?C i) \<longrightarrow> st' = ?st1"
      and odo: "(\<exists>i \<in> set is. ?C i) \<longrightarrow>
          (\<forall>frameset \<in> set (m_framesets st'). \<forall>f \<in> set (frames frameset). odometry f \<noteq> None)"
      by (auto simp del: searchHypotheses.simps)
    have acc: "fst ?acc \<le> m" "fst ?acc \<le> avg" by simp_all
    have c1: "m' \<le> m" using le acc(1) by simp
    have c2: "\<forall>j \<in> set (i # is). ?C j \<longrightarrow> (\<exists>e. ?err j = Some e \<and> m' \<le> e)"
      using low e le acc(2) by auto
    have c3: "(m', b') = (m, b) \<or>
       (\<exists>k \<in> set (i # is). ?C k \<and> hypothesis relPose ?n (?F ! k) = Inr b' \<and> ?err k = Some m' \<and> m' < m)"
    proof -
      from arg consider "(m', b') = ?acc"
        | k where "k \<in> set is" "?C k" "hypothesis relPose ?n (?F ! k) = Inr b'" "?err k = Some m'"
            "m' < fst ?acc"
        by blast
      then show ?thesis
      proof cases
        case 1
        show ?thesis
        proof (cases "avg < m")
          case True
          with 1 have "m' = avg" "b' = T" by simp_all
          with \<open>?C i\<close> T(1) e True show ?thesis by auto
        next
          case False
          with 1 show ?thesis by simp
        qed
      next
        case 2
        with acc(1) have "m' < m" by simp
        with 2 show ?thesis by auto
      qed
    qed
    have c5: "\<forall>frameset \<in> set (m_framesets st'). \<forall>f \<in> set (frames frameset). odometry f \<noteq> None"
    proof (cases "\<exists>i \<in> set is. ?C i")
      case True
      with odo show ?thesis by blast
    next
      case False
      with same have "st' = ?st1" by blast
      then show ?thesis using hypState_odometry by simp
    qed
    from run sk' c1 c2 c3 c5 True show ?thesis
      unfolding step by (intro exI [of _ m'] exI [of _ b'] exI [of _ st']) auto
  qed
qed

lemma mapE_total:
  "(\<forall>x \<in> set xs. \<exists>y. f x = Inr y) \<Longrightarrow> \<exists>ys. mapE f xs = Inr ys"
  by (induction xs) auto

lemma finalOdometry_ok:
  assumes "frames frameset \<noteq> []" and "framesetOK n frameset" and "length T = n"
    and "\<forall>f \<in> set (frames frameset). odometry f \<noteq> None"
  shows "\<exists>odo. finalOdometry fuse T frameset = Inr (withOdometry odo frameset)"
proof -
  from assms have b: "\<forall>f \<in> set (frames frameset). cameraId f < length T \<and> camera f \<noteq> None"
    by (auto simp: framesetOK_def)
  from assms(1) obtain f0 fs where f: "frames frameset = f0 # fs"
    by (cases "frames frameset") auto
  with assms(4) obtain odo0 where "odometry f0 = Some odo0" by auto
  with f have "finalOdometry fuse T frameset =
      Inr (withOdometry
        (odo0\<lparr>position := fst (fuse (map (\<lambda>f. (the (camera f), T ! cameraId f)) (frames frameset))),
              attitude := snd (fuse (map (\<lambda>f. (the (camera f), T ! cameraId f)) (frames frameset)))\<rparr>)
        frameset)"
    unfolding finalOdometry_def posePairs_ok [OF b]
    by (simp add: vat_def Let_def withOdometry_def)
  then show ?thesis by blast
qed

lemma wellFormed_reference:
  assumes "wellFormed st"
  shows "wellFormed (st\<lparr>m_extrinsics := (m_extrinsics st)[0 := Identity]\<rparr>)"
    and "vset (m_extrinsics st) 0 Identity = Inr ((m_extrinsics st)[0 := Identity])"
  using assms by (simp_all add: wellFormed_def vset_def)


lemma initialize_best:
  assumes wf: "wellFormed st"
    and st0: "st0 = st\<lparr>m_extrinsics := (m_extrinsics st)[0 := Identity]\<rparr>"
    and bound: "\<forall>frameset \<in> set (m_framesets st).
                  \<forall>e. hypothesisError relPose fuse E st0 frameset = Some e \<longrightarrow> e < DBL_MAX"
    and some: "\<exists>frameset \<in> set (m_framesets st). structurallyComplete (m_cameras st) frameset"
  shows "\<exists>frameset \<in> set (m_framesets st). \<exists>T e st1.
           structurallyComplete (m_cameras st) frameset \<and>
           hypothesis relPose (m_cameras st) frameset = Inr T \<and>
           hypothesisError relPose fuse E st0 frameset = Some e \<and>
           (\<forall>frameset' \<in> set (m_framesets st). structurallyComplete (m_cameras st) frameset' \<longrightarrow>
              (\<exists>e'. hypothesisError relPose fuse E st0 frameset' = Some e' \<and> e \<le> e')) \<and>
           initialize relPose fuse E st = Inr (Initialized, st1) \<and> m_extrinsics st1 = T \<and>
           sameSkeleton st0 st1 \<and>
           (\<forall>frameset \<in> set (m_framesets st1). \<forall>f \<in> set (frames frameset). odometry f \<noteq> None)"
proof -
  let ?n = "m_cameras st"
  let ?F = "m_framesets st"
  have wf0: "wellFormed st0" unfolding st0 by (rule wellFormed_reference(1) [OF wf])
  have f0: "m_framesets st0 = ?F" "m_cameras st0 = ?n"
    by (simp_all add: st0)
  from wf have n: "0 < ?n" and le: "length (m_extrinsics st) = ?n"
    by (simp_all add: wellFormed_def)
  have id0: "m_extrinsics st0 ! 0 = Identity"
    using n le by (simp add: st0)
  have idx: "\<forall>i \<in> set [0 ..< length ?F]. i < length (m_framesets st0)"
    by (simp add: f0)
  from searchHypotheses_ok [OF wf0 sameSkeleton_refl, of "[0 ..< length ?F]"
      relPose fuse E DBL_MAX "[]"] idx
  obtain m' b' st' where
    run: "searchHypotheses relPose fuse E [0 ..< length ?F] (DBL_MAX, []) st0 = Inr ((m', b'), st')"
    and sk: "sameSkeleton st0 st'"
    and low: "\<forall>i \<in> set [0 ..< length ?F]. structurallyComplete ?n (?F ! i) \<longrightarrow>
         (\<exists>e. hypothesisError relPose fuse E st0 (?F ! i) = Some e \<and> m' \<le> e)"
    and arg: "(m', b') = (DBL_MAX, []) \<or>
       (\<exists>k \<in> set [0 ..< length ?F]. structurallyComplete ?n (?F ! k) \<and>
          hypothesis relPose ?n (?F ! k) = Inr b' \<and>
          hypothesisError relPose fuse E st0 (?F ! k) = Some m' \<and> m' < DBL_MAX)"
    and odo: "(\<exists>i \<in> set [0 ..< length ?F]. structurallyComplete ?n (?F ! i)) \<longrightarrow>
         (\<forall>frameset \<in> set (m_framesets st'). \<forall>f \<in> set (frames frameset). odometry f \<noteq> None)"
    unfolding f0 by blast
  from some obtain j where j: "j < length ?F" "structurallyComplete ?n (?F ! j)"
    by (auto simp: in_set_conv_nth)
  with low obtain ej where ej: "hypothesisError relPose fuse E st0 (?F ! j) = Some ej" "m' \<le> ej"
    by auto
  from bound j(1) ej(1) have "ej < DBL_MAX" by auto
  with ej(2) have ne: "m' \<noteq> DBL_MAX" by simp
  with arg obtain k where k: "k < length ?F" "structurallyComplete ?n (?F ! k)"
    and hk: "hypothesis relPose ?n (?F ! k) = Inr b'"
    and ek: "hypothesisError relPose fuse E st0 (?F ! k) = Some m'"
    by auto
  from wf k(1) have okk: "framesetOK ?n (?F ! k)" by (simp add: wellFormed_def)
  from hypothesis_ok [OF okk k(2) n, of relPose] hk
  have b': "length b' = ?n" "b' ! 0 = Identity" by auto
  from sk have ls: "length (m_extrinsics st') = ?n" and e0: "m_extrinsics st' ! 0 = Identity"
    and cs: "m_cameras st' = ?n"
    using le id0 sameSkeleton_fields(1) [OF sk] by (simp_all add: sameSkeleton_def st0)
  have "\<forall>j \<in> set [1 ..< ?n]. j < length b' \<and> j < length (m_extrinsics st')" "distinct [1 ..< ?n]"
    using b'(1) ls by simp_all
  from setGlobalCameraPoses_ok [OF this] obtain ext where
    x: "setGlobalCameraPoses [1 ..< ?n] b' (m_extrinsics st') = Inr ext" "length ext = ?n"
      "\<forall>j \<in> set [1 ..< ?n]. ext ! j = b' ! j" "ext ! 0 = m_extrinsics st' ! 0"
    using ls by auto
  have ext: "ext = b'"
    by (rule list_eq_nth0) (use x b' e0 in simp_all)
  from odo j have present: "\<forall>frameset \<in> set (m_framesets st'). \<forall>f \<in> set (frames frameset). odometry f \<noteq> None"
    by auto
  have fin: "\<forall>frameset \<in> set (m_framesets st'). \<exists>odo. finalOdometry fuse b' frameset = Inr (withOdometry odo frameset)"
  proof
    fix frameset assume a: "frameset \<in> set (m_framesets st')"
    with wellFormed_skeleton [OF wf0 sk] have "frames frameset \<noteq> []" "framesetOK ?n frameset"
      by (simp_all add: f0)
    from finalOdometry_ok [OF this b'(1), of fuse] present a
    show "\<exists>odo. finalOdometry fuse b' frameset = Inr (withOdometry odo frameset)" by blast
  qed
  then have "\<forall>frameset \<in> set (m_framesets st'). \<exists>y. finalOdometry fuse b' frameset = Inr y"
    by blast
  from mapE_total [OF this] obtain fss where
    fss: "mapE (finalOdometry fuse b') (m_framesets st') = Inr fss" by blast
  have lf: "length fss = length (m_framesets st')"
    by (rule mapE_length [OF fss])
  have nth: "\<exists>odo. fss ! i = withOdometry odo (m_framesets st' ! i)" if "i < length (m_framesets st')" for i
    using mapE_nth [OF fss that] fin that by (metis nth_mem sum.inject(2))
  have strip: "map stripOdometry fss = map stripOdometry (m_framesets st')"
  proof (rule nth_equalityI)
    show "length (map stripOdometry fss) = length (map stripOdometry (m_framesets st'))"
      using lf by simp
  next
    fix i assume "i < length (map stripOdometry fss)"
    with lf have i: "i < length (m_framesets st')" by simp
    from nth [OF i] obtain odo where "fss ! i = withOdometry odo (m_framesets st' ! i)" by blast
    with i lf show "map stripOdometry fss ! i = map stripOdometry (m_framesets st') ! i"
      by (simp add: stripOdometry_withOdometry)
  qed
  have odo': "\<forall>frameset \<in> set fss. \<forall>f \<in> set (frames frameset). odometry f \<noteq> None"
  proof
    fix frameset assume "frameset \<in> set fss"
    then obtain i where i: "i < length fss" "frameset = fss ! i"
      by (auto simp: in_set_conv_nth)
    with lf nth [of i] obtain odo where "frameset = withOdometry odo (m_framesets st' ! i)"
      by auto
    then show "\<forall>f \<in> set (frames frameset). odometry f \<noteq> None"
      by (simp add: withOdometry_def)
  qed
  let ?st1 = "st'\<lparr>m_extrinsics := b', m_framesets := fss\<rparr>"
  have init: "initialize relPose fuse E st = Inr (Initialized, ?st1)"
    using run wellFormed_reference(2) [OF wf] ne x(1) fss cs
    by (simp add: initialize_def st0 [symmetric] ext)
  from sk have rec: "st' = st0\<lparr>m_extrinsics := m_extrinsics st', m_framesets := m_framesets st'\<rparr>"
    and s0: "map stripOdometry (m_framesets st') = map stripOdometry (m_framesets st0)"
    by (simp_all add: sameSkeleton_def)
  have "?st1 = st0\<lparr>m_extrinsics := b', m_framesets := fss\<rparr>"
    by (subst rec) simp
  then have sk1: "sameSkeleton st0 ?st1"
    using b' id0 le strip s0 by (simp add: sameSkeleton_def st0)
  have best: "\<forall>frameset' \<in> set ?F. structurallyComplete ?n frameset' \<longrightarrow>
      (\<exists>e'. hypothesisError relPose fuse E st0 frameset' = Some e' \<and> m' \<le> e')"
    using low by (auto simp: in_set_conv_nth)
  from k(1) have "?F ! k \<in> set ?F" by simp
  with k(2) hk ek best init sk1 odo' show ?thesis
    by (intro bexI [of _ "?F ! k"] exI [of _ b'] exI [of _ m'] exI [of _ ?st1]) simp_all
qed

subsection \<open>Camera 0 during the initialisation\<close>

lemma tryHypothesis_reference:
  assumes "tryHypothesis relPose fuse frameset st = Inr (T, st')"
  shows "m_extrinsics st' ! 0 = m_extrinsics st ! 0" and "m_cameras st' = m_cameras st"
proof -
  from assms obtain T' ext fss where
    x: "setGlobalCameraPoses [1 ..< m_cameras st] T' (m_extrinsics st) = Inr ext"
    and st': "st' = st\<lparr>m_extrinsics := ext, m_framesets := fss\<rparr>"
    by (auto simp: tryHypothesis_def split: sum.splits)
  from setGlobalCameraPoses_frame [OF x] have "ext ! 0 = m_extrinsics st ! 0" by simp
  with st' show "m_extrinsics st' ! 0 = m_extrinsics st ! 0" "m_cameras st' = m_cameras st"
    by simp_all
qed

lemma searchHypotheses_reference:
  "searchHypotheses relPose fuse E is acc st = Inr (acc', st') \<Longrightarrow>
   m_extrinsics st' ! 0 = m_extrinsics st ! 0 \<and> m_cameras st' = m_cameras st"
proof (induction "is" arbitrary: acc st)
  case Nil
  then show ?case by (cases acc) auto
next
  case (Cons i "is")
  obtain m b where acc: "acc = (m, b)" by (cases acc)
  from Cons.prems obtain frameset where fs: "vat (m_framesets st) i = Inr frameset"
    unfolding acc by (auto split: sum.splits)
  show ?case
  proof (cases "length (frames frameset) < m_cameras st")
    case True
    with Cons.prems fs have "searchHypotheses relPose fuse E is (m, b) st = Inr (acc', st')"
      unfolding acc by simp
    from Cons.IH [OF this] show ?thesis .
  next
    case False
    with Cons.prems fs obtain T st1 acc1 where
      t: "tryHypothesis relPose fuse frameset st = Inr (T, st1)"
      and r: "searchHypotheses relPose fuse E is acc1 st1 = Inr (acc', st')"
      unfolding acc by (auto split: sum.splits prod.splits if_splits)
    from Cons.IH [OF r] tryHypothesis_reference [OF t] show ?thesis by simp
  qed
qed

lemma initialize_reference:
  assumes "initialize relPose fuse E st = Inr (out, st1)"
  shows "m_extrinsics st1 ! 0 = Identity"
proof -
  from assms have l: "0 < length (m_extrinsics st)"
    by (auto simp: initialize_def vset_def split: if_splits)
  let ?st0 = "st\<lparr>m_extrinsics := (m_extrinsics st)[0 := Identity]\<rparr>"
  from assms l obtain acc st' where
    s: "searchHypotheses relPose fuse E [0 ..< length (m_framesets st)] (DBL_MAX, []) ?st0 = Inr (acc, st')"
    by (auto simp: initialize_def vset_def split: sum.splits)
  from searchHypotheses_reference [OF s] l have e: "m_extrinsics st' ! 0 = Identity"
    by simp
  obtain m b where acc: "acc = (m, b)" by (cases acc)
  show ?thesis
  proof (cases "m = DBL_MAX")
    case True
    with assms l s acc have "st1 = st'"
      by (simp add: initialize_def vset_def)
    with e show ?thesis by simp
  next
    case False
    with assms l s acc obtain ext fss where
      x: "setGlobalCameraPoses [1 ..< m_cameras st'] b (m_extrinsics st') = Inr ext"
      and st1: "st1 = st'\<lparr>m_extrinsics := ext, m_framesets := fss\<rparr>"
      by (auto simp: initialize_def vset_def split: sum.splits)
    from setGlobalCameraPoses_frame [OF x] e st1 show ?thesis by simp
  qed
qed

subsection \<open>Camera 0 in the problem\<close>

lemma frameResiduals_blocks:
  assumes "frameResiduals flag st i frame features = Inr rs"
  shows "(ExtrinsicRotation c \<in> set (concat (map res_blocks rs)) \<longleftrightarrow>
            cameraId frame = c \<and> (\<exists>p \<in> set features. f2d_feature3D st p \<noteq> None)) \<and>
         (ExtrinsicTranslation c \<in> set (concat (map res_blocks rs)) \<longleftrightarrow>
            cameraId frame = c \<and> (\<exists>p \<in> set features. f2d_feature3D st p \<noteq> None))"
  using assms
proof (induction features arbitrary: rs)
  case Nil
  then show ?case by simp
next
  case (Cons p features)
  show ?case
  proof (cases "f2d_feature3D st p")
    case None
    with Cons show ?thesis by simp
  next
    case (Some a)
    with Cons.prems obtain rs' where
      r: "frameResiduals flag st i frame features = Inr rs'"
      and rs: "rs = \<lparr>res_camera = cameraId frame, res_observed = f2d_keypoint st p,
                     res_point = (if flag then None else Some (f3d_point st a)),
                     res_blocks = [ExtrinsicRotation (cameraId frame), ExtrinsicTranslation (cameraId frame),
                                   OdometryPosition i, OdometryAttitude i]
                                  @ (if flag then [ScenePoint a] else [])\<rparr> # rs'"
      by (auto split: if_splits sum.splits)
    from Cons.IH [OF r] Some show ?thesis
      unfolding rs by auto
  qed
qed

lemma mapE_concat_blocks:
  assumes "mapE (\<lambda>frame. frameResiduals flag st i frame (features2D frame)) fs = Inr rss"
  shows "(ExtrinsicRotation c \<in> set (concat (map res_blocks (concat rss))) \<longleftrightarrow>
            (\<exists>f \<in> set fs. cameraId f = c \<and> (\<exists>p \<in> set (features2D f). f2d_feature3D st p \<noteq> None))) \<and>
         (ExtrinsicTranslation c \<in> set (concat (map res_blocks (concat rss))) \<longleftrightarrow>
            (\<exists>f \<in> set fs. cameraId f = c \<and> (\<exists>p \<in> set (features2D f). f2d_feature3D st p \<noteq> None)))"
  using assms
proof (induction fs arbitrary: rss)
  case Nil
  then show ?case by simp
next
  case (Cons f fs)
  from Cons.prems obtain rs rss' where
    a: "frameResiduals flag st i f (features2D f) = Inr rs"
    and b: "mapE (\<lambda>frame. frameResiduals flag st i frame (features2D frame)) fs = Inr rss'"
    and c: "rss = rs # rss'"
    by (auto split: sum.splits)
  from frameResiduals_blocks [OF a, of c] Cons.IH [OF b] show ?case
    unfolding c by auto
qed

lemma setResiduals_blocks:
  assumes "setResiduals flag st i framesets = Inr rs"
  shows "(ExtrinsicRotation c \<in> set (concat (map res_blocks rs)) \<longleftrightarrow>
            (\<exists>frameset \<in> set framesets. \<exists>f \<in> set (frames frameset).
               cameraId f = c \<and> (\<exists>p \<in> set (features2D f). f2d_feature3D st p \<noteq> None))) \<and>
         (ExtrinsicTranslation c \<in> set (concat (map res_blocks rs)) \<longleftrightarrow>
            (\<exists>frameset \<in> set framesets. \<exists>f \<in> set (frames frameset).
               cameraId f = c \<and> (\<exists>p \<in> set (features2D f). f2d_feature3D st p \<noteq> None)))"
  using assms
proof (induction framesets arbitrary: i rs)
  case Nil
  then show ?case by simp
next
  case (Cons frameset framesets)
  from Cons.prems obtain rss rs' where
    a: "mapE (\<lambda>frame. frameResiduals flag st i frame (features2D frame)) (frames frameset) = Inr rss"
    and b: "setResiduals flag st (Suc i) framesets = Inr rs'"
    and c: "rs = concat rss @ rs'"
    by (auto split: sum.splits)
  from mapE_concat_blocks [OF a, of c] Cons.IH [OF b] show ?case
    unfolding c by auto
qed

lemma buildProblem_blocks:
  assumes "buildProblem flag st = Inr p"
  shows "(ExtrinsicRotation c \<in> blocksOf p \<longleftrightarrow> cameraObserved st c) \<and>
         (ExtrinsicTranslation c \<in> blocksOf p \<longleftrightarrow> cameraObserved st c)"
proof -
  from assms obtain rs where r: "setResiduals flag st 0 (m_framesets st) = Inr rs"
    and p: "residuals p = rs"
    by (auto simp: buildProblem_def split: sum.splits)
  from setResiduals_blocks [OF r, of c] show ?thesis
    by (simp add: blocksOf_def p cameraObserved_def)
qed

lemma mapE_vat_take:
  assumes "mapE (vat xs) [0 ..< n] = Inr T"
  shows "T = take n xs" and "n \<le> length xs"
proof -
  have l: "length T = n" using mapE_length [OF assms] by simp
  have nth: "vat xs i = Inr (T ! i)" if "i < n" for i
    using mapE_nth [OF assms, of i] that by simp
  show n: "n \<le> length xs"
  proof (rule ccontr)
    assume "\<not> n \<le> length xs"
    then have "length xs < n" by simp
    from nth [OF this] show False by (simp add: vat_def)
  qed
  show "T = take n xs"
  proof (rule nth_equalityI)
    show "length T = length (take n xs)" using l n by simp
  next
    fix i assume "i < length T"
    with l have i: "i < n" by simp
    with nth [OF i] n show "T ! i = take n xs ! i"
      by (simp add: vat_def split: if_splits)
  qed
qed

lemma mapE_vat_ok:
  "n \<le> length xs \<Longrightarrow> mapE (vat xs) [0 ..< n] = Inr (take n xs)"
proof -
  assume n: "n \<le> length xs"
  have "mapE (vat xs) [0 ..< n] = Inr (map (\<lambda>i. xs ! i) [0 ..< n])"
    by (rule mapE_Inr) (use n in \<open>simp add: vat_def\<close>)
  also have "map (\<lambda>i. xs ! i) [0 ..< n] = take n xs"
    using n by (metis map_nth take_map take_upt add_0 nat_le_iff_add)
  finally show ?thesis .
qed

lemma setGlobalCameraPoses_written:
  "setGlobalCameraPoses js T ext = Inr ext' \<Longrightarrow> distinct js \<Longrightarrow> \<forall>j \<in> set js. ext' ! j = T ! j"
proof (induction js arbitrary: ext)
  case Nil
  then show ?case by simp
next
  case (Cons j js)
  from Cons.prems(1) obtain pose where p: "vat T j = Inr pose" and j: "j < length ext"
    and r: "setGlobalCameraPoses js T (ext[j := pose]) = Inr ext'"
    by (auto simp: vset_def split: sum.splits if_splits)
  from p have pose: "pose = T ! j" by (auto simp: vat_def split: if_splits)
  from Cons.prems(2) have d: "distinct js" "j \<notin> set js" by simp_all
  from setGlobalCameraPoses_frame [OF r] d(2) j have "ext' ! j = T ! j"
    by (simp add: pose)
  with Cons.IH [OF r d(1)] show ?case by simp
qed

lemma optimize_extrinsic:
  assumes o: "optimize solve flag st = Inr st'" and p: "buildProblem flag st = Inr p"
    and i: "i < m_cameras st"
  shows "m_extrinsics st' ! i =
           (m_extrinsics st ! i)\<lparr>rotation := v_rotation (solved solve p (solverInput st)) i,
                                 translation := v_translation (solved solve p (solverInput st)) i\<rparr>"
proof -
  let ?n = "m_cameras st"
  from o obtain T where T: "mapE (vat (m_extrinsics st)) [0 ..< ?n] = Inr T"
    by (auto simp: optimize_def split: sum.splits)
  note tk = mapE_vat_take [OF T]
  let ?w = "solved solve p (solverInput st)"
  let ?T' = "map (\<lambda>i. (T ! i)\<lparr>rotation := v_rotation ?w i, translation := v_translation ?w i\<rparr>) [0 ..< ?n]"
  from o T p obtain ext where
    x: "setGlobalCameraPoses [0 ..< ?n] ?T' (m_extrinsics st) = Inr ext"
    and st': "m_extrinsics st' = ext"
    unfolding optimize_def solverInput_def tk(1) [symmetric]
    by (auto simp: Let_def split: sum.splits)
  from setGlobalCameraPoses_written [OF x] i have "ext ! i = ?T' ! i" by simp
  also have "\<dots> = (T ! i)\<lparr>rotation := v_rotation ?w i, translation := v_translation ?w i\<rparr>"
    using i by simp
  also have "T ! i = m_extrinsics st ! i"
    using tk i by simp
  finally show ?thesis using st' by simp
qed

lemma frameResiduals_ok:
  "cameraId frame < m_cameras st \<Longrightarrow> odometry frame \<noteq> None \<Longrightarrow>
   \<exists>rs. frameResiduals flag st i frame features = Inr rs"
  by (induction features) (auto split: option.splits)

lemma setResiduals_ok:
  assumes "\<forall>frameset \<in> set framesets. \<forall>f \<in> set (frames frameset).
             cameraId f < m_cameras st \<and> odometry f \<noteq> None"
  shows "\<exists>rs. setResiduals flag st i framesets = Inr rs"
  using assms
proof (induction framesets arbitrary: i)
  case Nil
  then show ?case by simp
next
  case (Cons frameset framesets)
  have "\<forall>f \<in> set (frames frameset). \<exists>y. frameResiduals flag st i f (features2D f) = Inr y"
    using Cons.prems by (auto intro: frameResiduals_ok)
  from mapE_total [OF this] obtain rss where
    a: "mapE (\<lambda>frame. frameResiduals flag st i frame (features2D frame)) (frames frameset) = Inr rss"
    by blast
  from Cons.prems have "\<forall>frameset \<in> set framesets. \<forall>f \<in> set (frames frameset).
             cameraId f < m_cameras st \<and> odometry f \<noteq> None"
    by simp
  from Cons.IH [OF this, of "Suc i"] a show ?case by auto
qed

lemma optimize_ok:
  assumes "length (m_extrinsics st) = m_cameras st"
    and "\<forall>frameset \<in> set (m_framesets st). \<forall>f \<in> set (frames frameset).
           cameraId f < m_cameras st \<and> odometry f \<noteq> None"
  shows "\<exists>st' p. optimize solve flag st = Inr st' \<and> buildProblem flag st = Inr p"
proof -
  let ?n = "m_cameras st"
  have T: "mapE (vat (m_extrinsics st)) [0 ..< ?n] = Inr (take ?n (m_extrinsics st))"
    by (rule mapE_vat_ok) (simp add: assms(1))
  from setResiduals_ok [OF assms(2), of flag 0] obtain rs where
    "setResiduals flag st 0 (m_framesets st) = Inr rs" by blast
  then obtain p where p: "buildProblem flag st = Inr p"
    by (simp add: buildProblem_def)
  let ?w = "solved solve p (variablesOf (take ?n (m_extrinsics st)) st)"
  let ?T' = "map (\<lambda>i. (take ?n (m_extrinsics st) ! i)\<lparr>rotation := v_rotation ?w i,
                         translation := v_translation ?w i\<rparr>) [0 ..< ?n]"
  have "\<forall>j \<in> set [0 ..< ?n]. j < length ?T' \<and> j < length (m_extrinsics st)" "distinct [0 ..< ?n]"
    using assms(1) by simp_all
  from setGlobalCameraPoses_ok [OF this] obtain ext where
    "setGlobalCameraPoses [0 ..< ?n] ?T' (m_extrinsics st) = Inr ext" by blast
  with T p show ?thesis
    by (simp add: optimize_def Let_def)
qed


text \<open>
  Claim C1 (reference camera), as amended. After the initialisation the extrinsic of
  camera 0 is the identity. \<^verbatim>\<open>optimize\<close> has the rotation and the translation of camera 0
  among the parameter blocks of the problem exactly when a frame of camera 0 has a
  feature with a scene point, sets no block constant, and writes back, for camera 0 as
  for the others, the rotation and the translation the solver left: the extrinsic of
  camera 0 after the refinement is its extrinsic before with these two values, and it is
  unchanged when the solver returns them unchanged.
\<close>

theorem camera0_reference:
  "(initialize relPose fuse E st = Inr (out, st1) \<longrightarrow> isIdentity (m_extrinsics st1 ! 0)) \<and>
   (optimize solve flag st1 = Inr st2 \<and> buildProblem flag st1 = Inr p \<and> 0 < m_cameras st1 \<longrightarrow>
      (ExtrinsicRotation 0 \<in> blocksOf p \<longleftrightarrow> cameraObserved st1 0) \<and>
      (ExtrinsicTranslation 0 \<in> blocksOf p \<longleftrightarrow> cameraObserved st1 0) \<and>
      m_extrinsics st2 ! 0 =
        (m_extrinsics st1 ! 0)\<lparr>rotation := v_rotation (solved solve p (solverInput st1)) 0,
                                translation := v_translation (solved solve p (solverInput st1)) 0\<rparr> \<and>
      (v_rotation (solve p (solverInput st1)) 0 = rotation (m_extrinsics st1 ! 0) \<and>
       v_translation (solve p (solverInput st1)) 0 = translation (m_extrinsics st1 ! 0) \<longrightarrow>
         m_extrinsics st2 ! 0 = m_extrinsics st1 ! 0))"
proof (intro conjI impI)
  assume "initialize relPose fuse E st = Inr (out, st1)"
  from initialize_reference [OF this] show "isIdentity (m_extrinsics st1 ! 0)"
    by (simp add: isIdentity_def Identity_def)
next
  assume a: "optimize solve flag st1 = Inr st2 \<and> buildProblem flag st1 = Inr p \<and> 0 < m_cameras st1"
  then have o: "optimize solve flag st1 = Inr st2" and p: "buildProblem flag st1 = Inr p"
    and n: "0 < m_cameras st1"
    by simp_all
  from buildProblem_blocks [OF p, of 0]
  show "ExtrinsicRotation 0 \<in> blocksOf p \<longleftrightarrow> cameraObserved st1 0"
    and "ExtrinsicTranslation 0 \<in> blocksOf p \<longleftrightarrow> cameraObserved st1 0"
    by simp_all
  note e = optimize_extrinsic [OF o p n]
  show "m_extrinsics st2 ! 0 =
        (m_extrinsics st1 ! 0)\<lparr>rotation := v_rotation (solved solve p (solverInput st1)) 0,
                                translation := v_translation (solved solve p (solverInput st1)) 0\<rparr>"
    by (rule e)
  assume unmoved: "v_rotation (solve p (solverInput st1)) 0 = rotation (m_extrinsics st1 ! 0) \<and>
       v_translation (solve p (solverInput st1)) 0 = translation (m_extrinsics st1 ! 0)"
  from o obtain T where "mapE (vat (m_extrinsics st1)) [0 ..< m_cameras st1] = Inr T"
    by (auto simp: optimize_def split: sum.splits)
  from mapE_vat_take(2) [OF this] n have l: "0 < length (m_extrinsics st1)" by auto
  have "v_rotation (solverInput st1) 0 = rotation (m_extrinsics st1 ! 0)"
    "v_translation (solverInput st1) 0 = translation (m_extrinsics st1 ! 0)"
    using n l by (simp_all add: solverInput_def variablesOf_def)
  with unmoved have "v_rotation (solved solve p (solverInput st1)) 0 = rotation (m_extrinsics st1 ! 0)"
    "v_translation (solved solve p (solverInput st1)) 0 = translation (m_extrinsics st1 ! 0)"
    by (simp_all add: solved_def Let_def)
  with e show "m_extrinsics st2 ! 0 = m_extrinsics st1 ! 0"
    by simp
qed

lemma ex_rig_fields:
  "m_cameras ex_rig = 2" "m_framesets ex_rig = [ex_setA, ex_setB]"
  "m_extrinsics ex_rig = [Identity, Identity]"
  by (simp_all add: ex_rig_def initial_def numeral_2_eq_2)

lemma ex_sets_ok:
  "framesetOK 2 ex_setA" "framesetOK 2 ex_setB" "framesetOK 3 ex_setA"
  "frames ex_setA \<noteq> []" "frames ex_setB \<noteq> []"
  by (simp_all add: framesetOK_def ex_setA_def ex_setB_def frameWith_def frameAt_def)

lemma ex_rig_wellFormed: "wellFormed ex_rig"
  by (simp add: wellFormed_def ex_rig_fields ex_sets_ok)

lemma ex_complete:
  "structurallyComplete 2 ex_setA" "structurallyComplete 2 ex_setB"
  "\<not> structurallyComplete 3 ex_setA"
  using complete_iff [OF ex_sets_ok(1)] complete_iff [OF ex_sets_ok(2)] complete_iff [OF ex_sets_ok(3)]
  by (simp_all add: ex_setA_def ex_setB_def)

lemma ex_hypothesis:
  "hypothesis ex_relPose 2 ex_setA
     = Inr [Identity, \<lparr>timeStamp = 0, rotation = (1, 0, 0, 0), translation = (- 2, 0, 0)\<rparr>]"
  "hypothesis ex_relPose 2 ex_setB
     = Inr [Identity, \<lparr>timeStamp = 0, rotation = (1, 0, 0, 0), translation = (- 1, 0, 0)\<rparr>]"
  by (simp_all add: hypothesis_def ex_setA_def ex_setB_def frameWith_def frameAt_def vset_def
      ex_relPose_def minus3_def numeral_2_eq_2 upt_rec)

lemma DBL_bounds:
  "0 < DBL_MIN" "\<not> DBL_MIN < 0" "DBL_MIN < 1" "DBL_MIN < 2"
  "DBL_MIN < 3" "0 < DBL_MAX" "1 < DBL_MAX" "2 < DBL_MAX" "3 < DBL_MAX"
  by (simp_all add: DBL_MIN_def DBL_MAX_def)

lemma ex_rig0_wellFormed: "wellFormed ex_rig0"
  unfolding ex_rig0_def by (rule wellFormed_reference(1) [OF ex_rig_wellFormed])

lemma ex_rig0_fields:
  "m_cameras ex_rig0 = 2" "m_framesets ex_rig0 = [ex_setA, ex_setB]"
  "m_extrinsics ex_rig0 = [Identity, Identity]"
  by (simp_all add: ex_rig0_def ex_rig_fields)

lemma ex_errors:
  "hypothesisError ex_relPose ex_fuse ex_E ex_rig0 ex_setA = Some 2"
  "hypothesisError ex_relPose ex_fuse ex_E ex_rig0 ex_setB = Some (3 / 2)"
proof -
  from hypothesisError_ok [OF ex_rig0_wellFormed, of ex_setA ex_relPose ex_fuse ex_E]
  obtain T mn mx avg cnt where
    a: "hypothesis ex_relPose 2 ex_setA = Inr T"
       "reprojectionError ex_E (hypState ex_fuse T ex_rig0) = Inr (mn, mx, avg, cnt)"
       "hypothesisError ex_relPose ex_fuse ex_E ex_rig0 ex_setA = Some avg"
    by (auto simp: ex_rig0_fields ex_complete)
  from a(1) have T: "T = [Identity, \<lparr>timeStamp = 0, rotation = (1, 0, 0, 0), translation = (- 2, 0, 0)\<rparr>]"
    by (simp add: ex_hypothesis)
  have "reprojectionError ex_E (hypState ex_fuse T ex_rig0) = Inr (1, 3, 2, 4)"
    by (simp add: DBL_bounds Let_def Identity_def reprojectionError_def hypState_def ex_rig0_fields T withOdometry_def
        ex_setA_def ex_setB_def frameWith_def frameAt_def vat_def frameReprojectionError_def
        ex_rig0_def ex_rig_def initial_def ex_E_def)
  with a show "hypothesisError ex_relPose ex_fuse ex_E ex_rig0 ex_setA = Some 2" by simp
  from hypothesisError_ok [OF ex_rig0_wellFormed, of ex_setB ex_relPose ex_fuse ex_E]
  obtain T mn mx avg cnt where
    a: "hypothesis ex_relPose 2 ex_setB = Inr T"
       "reprojectionError ex_E (hypState ex_fuse T ex_rig0) = Inr (mn, mx, avg, cnt)"
       "hypothesisError ex_relPose ex_fuse ex_E ex_rig0 ex_setB = Some avg"
    by (auto simp: ex_rig0_fields ex_complete)
  from a(1) have T: "T = [Identity, \<lparr>timeStamp = 0, rotation = (1, 0, 0, 0), translation = (- 1, 0, 0)\<rparr>]"
    by (simp add: ex_hypothesis)
  have "reprojectionError ex_E (hypState ex_fuse T ex_rig0) = Inr (1, 2, 3 / 2, 4)"
    by (simp add: DBL_bounds Let_def Identity_def reprojectionError_def hypState_def ex_rig0_fields T withOdometry_def
        ex_setA_def ex_setB_def frameWith_def frameAt_def vat_def frameReprojectionError_def
        ex_rig0_def ex_rig_def initial_def ex_E_def)
  with a show "hypothesisError ex_relPose ex_fuse ex_E ex_rig0 ex_setB = Some (3 / 2)" by simp
qed



lemma ex_bound:
  "\<forall>frameset \<in> set (m_framesets ex_rig).
     \<forall>e. hypothesisError ex_relPose ex_fuse ex_E ex_rig0 frameset = Some e \<longrightarrow> e < DBL_MAX"
proof -
  have "(3 / 2 :: real) < DBL_MAX" "(2 :: real) < DBL_MAX"
    by (simp_all add: DBL_MAX_def)
  then show ?thesis
    by (auto simp: ex_rig_fields ex_errors)
qed



lemma strip_features:
  assumes "stripOdometry a = stripOdometry b"
  shows "map (\<lambda>f. (cameraId f, features2D f)) (frames a)
           = map (\<lambda>f. (cameraId f, features2D f)) (frames b)"
proof -
  from assms have "frames (stripOdometry a) = frames (stripOdometry b)" by simp
  then have "map (\<lambda>f. f\<lparr>odometry := None\<rparr>) (frames a) = map (\<lambda>f. f\<lparr>odometry := None\<rparr>) (frames b)"
    by (simp add: stripOdometry_def)
  then have "map (\<lambda>f. (cameraId f, features2D f)) (map (\<lambda>f. f\<lparr>odometry := None\<rparr>) (frames a))
      = map (\<lambda>f. (cameraId f, features2D f)) (map (\<lambda>f. f\<lparr>odometry := None\<rparr>) (frames b))"
    by simp
  then show ?thesis by (simp add: comp_def)
qed

lemma cameraObserved_skeleton:
  assumes "sameSkeleton st0 st"
  shows "cameraObserved st c = cameraObserved st0 c"
proof -
  let ?h = "\<lambda>frameset. map (\<lambda>f. (cameraId f, features2D f)) (frames frameset)"
  have form: "cameraObserved s c =
      (\<exists>xs \<in> set (map ?h (m_framesets s)). \<exists>x \<in> set xs.
         fst x = c \<and> (\<exists>p \<in> set (snd x). f2d_feature3D s p \<noteq> None))" for s
    by (auto simp: cameraObserved_def)
  from assms have s: "map stripOdometry (m_framesets st) = map stripOdometry (m_framesets st0)"
    by (simp add: sameSkeleton_def)
  have h: "?h (stripOdometry x) = ?h x" for x
    by (simp add: stripOdometry_def comp_def)
  have "map ?h (m_framesets st) = map ?h (map stripOdometry (m_framesets st))"
    by (simp add: h comp_def)
  also have "\<dots> = map ?h (map stripOdometry (m_framesets st0))" by (simp only: s)
  also have "\<dots> = map ?h (m_framesets st0)" by (simp add: h comp_def)
  finally have "map ?h (m_framesets st) = map ?h (m_framesets st0)" .
  then show ?thesis
    unfolding form using sameSkeleton_fields(2) [OF assms] by simp
qed

lemma optimize_length:
  assumes "optimize solve flag st = Inr st'"
  shows "length (m_extrinsics st') = length (m_extrinsics st)"
proof -
  from assms obtain T ext where
    "setGlobalCameraPoses [0 ..< m_cameras st] T (m_extrinsics st) = Inr ext"
    and "m_extrinsics st' = ext"
    by (auto simp: optimize_def Let_def split: sum.splits)
  with setGlobalCameraPoses_frame show ?thesis by metis
qed

lemma ex_init:
  "\<exists>st1. initialize ex_relPose ex_fuse ex_E ex_rig = Inr (Initialized, st1) \<and>
         sameSkeleton ex_rig0 st1 \<and>
         (\<forall>frameset \<in> set (m_framesets st1). \<forall>f \<in> set (frames frameset). odometry f \<noteq> None)"
proof -
  have some: "\<exists>frameset \<in> set (m_framesets ex_rig). structurallyComplete (m_cameras ex_rig) frameset"
    by (simp add: ex_rig_fields ex_complete)
  from initialize_best [OF ex_rig_wellFormed ex_rig0_def ex_bound some]
  obtain frameset T e st1 where
    "initialize ex_relPose ex_fuse ex_E ex_rig = Inr (Initialized, st1) \<and> m_extrinsics st1 = T \<and>
     sameSkeleton ex_rig0 st1 \<and>
     (\<forall>frameset \<in> set (m_framesets st1). \<forall>f \<in> set (frames frameset). odometry f \<noteq> None)"
    by (elim bexE exE conjE) (rule that, intro conjI)
  then show ?thesis by (intro exI [of _ st1]) simp
qed

lemma ex_run:
  "\<exists>st1 st2 p.
     initialize ex_relPose ex_fuse ex_E ex_rig = Inr (Initialized, st1) \<and>
     optimize solve False st1 = Inr st2 \<and> buildProblem False st1 = Inr p \<and>
     run ex_relPose ex_fuse ex_E solve ex_rig = Inr (Refined, st2) \<and>
     m_extrinsics st1 ! 0 = Identity \<and> cameraObserved st1 0 \<and>
     m_cameras st1 = 2 \<and> length (m_extrinsics st1) = 2 \<and> length (m_extrinsics st2) = 2"
proof -
  from ex_init obtain st1 where
    init: "initialize ex_relPose ex_fuse ex_E ex_rig = Inr (Initialized, st1)"
    and sk: "sameSkeleton ex_rig0 st1"
    and odo: "\<forall>frameset \<in> set (m_framesets st1). \<forall>f \<in> set (frames frameset). odometry f \<noteq> None"
    by blast
  from sameSkeleton_fields(1) [OF sk] have n: "m_cameras st1 = 2"
    by (simp add: ex_rig0_fields)
  from sk have "length (m_extrinsics st1) = length (m_extrinsics ex_rig0)"
    unfolding sameSkeleton_def by (elim conjE)
  then have l: "length (m_extrinsics st1) = 2"
    by (simp add: ex_rig0_fields)
  from wellFormed_skeleton [OF ex_rig0_wellFormed sk]
  have ok: "\<forall>frameset \<in> set (m_framesets st1). framesetOK 2 frameset"
    by (simp add: ex_rig0_fields)
  have fr: "\<forall>frameset \<in> set (m_framesets st1). \<forall>f \<in> set (frames frameset).
       cameraId f < m_cameras st1 \<and> odometry f \<noteq> None"
  proof (intro ballI conjI)
    fix frameset f assume a: "frameset \<in> set (m_framesets st1)" "f \<in> set (frames frameset)"
    from ok a(1) have "framesetOK 2 frameset" by blast
    with a(2) show "cameraId f < m_cameras st1" unfolding n framesetOK_def by blast
    from odo a show "odometry f \<noteq> None" by blast
  qed
  have le: "length (m_extrinsics st1) = m_cameras st1" using n l by simp
  from optimize_ok [OF le fr, of solve False] obtain st2 p where
    o: "optimize solve False st1 = Inr st2" and p: "buildProblem False st1 = Inr p"
    by blast
  from init o have r: "run ex_relPose ex_fuse ex_E solve ex_rig = Inr (Refined, st2)"
    by (simp add: run_def)
  have "cameraObserved ex_rig0 0"
    unfolding cameraObserved_def ex_rig0_fields
    by (simp add: ex_setA_def frameWith_def frameAt_def ex_rig0_def ex_rig_def)
  then have c: "cameraObserved st1 0"
    by (simp only: cameraObserved_skeleton [OF sk])
  note id = initialize_reference [OF init]
  from optimize_length [OF o] l have l2: "length (m_extrinsics st2) = 2" by simp
  show ?thesis
    by (intro exI [of _ st1] exI [of _ st2] exI [of _ p] conjI init o p r id c n l l2)
qed

text \<open>
  Claim C1 as stated fails after the refinement: on the rig of two cameras, with the
  solver that returns the translations of least error, \<^verbatim>\<open>run\<close> leaves camera 0 with the
  translation \<open>(1, 0, 0)\<close>, which is not the identity.
\<close>

theorem camera0_moves_counterexample:
  "referenceOf (run ex_relPose ex_fuse ex_E ex_solve ex_rig)
     = Some (Identity\<lparr>translation := (1, 0, 0)\<rparr>) \<and>
   \<not> isIdentity (Identity\<lparr>translation := (1, 0, 0)\<rparr>)"
proof -
  from ex_run [of ex_solve] obtain st1 st2 p where
    o: "optimize ex_solve False st1 = Inr st2" and p: "buildProblem False st1 = Inr p"
    and r: "run ex_relPose ex_fuse ex_E ex_solve ex_rig = Inr (Refined, st2)"
    and id: "m_extrinsics st1 ! 0 = Identity" and c: "cameraObserved st1 0"
    and n: "m_cameras st1 = 2" and l: "length (m_extrinsics st1) = 2"
    and l2: "length (m_extrinsics st2) = 2"
    by blast
  from n have n0: "0 < m_cameras st1" by simp
  from buildProblem_blocks [OF p, of 0] c
  have b: "ExtrinsicRotation 0 \<in> blocksOf p" "ExtrinsicTranslation 0 \<in> blocksOf p"
    by simp_all
  have v: "v_rotation (solved ex_solve p (solverInput st1)) 0 = (1, 0, 0, 0)"
    "v_translation (solved ex_solve p (solverInput st1)) 0 = (1, 0, 0)"
    using b n l id
    by (simp_all add: solved_def Let_def ex_solve_def solverInput_def variablesOf_def Identity_def)
  from optimize_extrinsic [OF o p n0]
  have "m_extrinsics st2 ! 0 = Identity\<lparr>translation := (1, 0, 0)\<rparr>"
    unfolding v id by (simp add: Identity_def)
  moreover from l2 have "0 < length (m_extrinsics st2)" by simp
  ultimately show ?thesis
    unfolding r referenceOf_def vat_def by (simp add: isIdentity_def Identity_def)
qed

text \<open>The rig of two cameras with the solver that changes nothing.\<close>

theorem camera0_reference_witness:
  "map_option isIdentity (referenceOf (initialize ex_relPose ex_fuse ex_E ex_rig)) = Some True \<and>
   map_option isIdentity (referenceOf (run ex_relPose ex_fuse ex_E ex_idle ex_rig)) = Some True"
proof -
  from ex_run [of ex_idle] obtain st1 st2 p where
    i: "initialize ex_relPose ex_fuse ex_E ex_rig = Inr (Initialized, st1)"
    and o: "optimize ex_idle False st1 = Inr st2" and p: "buildProblem False st1 = Inr p"
    and r: "run ex_relPose ex_fuse ex_E ex_idle ex_rig = Inr (Refined, st2)"
    and n: "m_cameras st1 = 2" and l: "length (m_extrinsics st1) = 2"
    and l2: "length (m_extrinsics st2) = 2"
    by blast
  have idle: "v_rotation (ex_idle p (solverInput st1)) 0 = rotation (m_extrinsics st1 ! 0) \<and>
      v_translation (ex_idle p (solverInput st1)) 0 = translation (m_extrinsics st1 ! 0)"
    using n l by (simp add: ex_idle_def solverInput_def variablesOf_def)
  from n have n0: "0 < m_cameras st1" by simp
  note t = camera0_reference [where relPose = ex_relPose and fuse = ex_fuse and E = ex_E
      and st = ex_rig and out = Initialized and ?st1.0 = st1 and solve = ex_idle and flag = False
      and ?st2.0 = st2 and p = p]
  from t i have 1: "isIdentity (m_extrinsics st1 ! 0)" by blast
  from t o p n0 idle have 2: "m_extrinsics st2 ! 0 = m_extrinsics st1 ! 0" by blast
  from l l2 have 3: "0 < length (m_extrinsics st1)" "0 < length (m_extrinsics st2)" by simp_all
  from 1 2 3 show ?thesis
    unfolding i r referenceOf_def vat_def by simp
qed

end
